theory Spec2Isabelle
  imports Main "HOL-Library.Word" "HOL-Library.Sublist"
begin

unbundle bit_operations_syntax

section \<open>Machine types, chip variants and constants\<close>

type_synonym u8 = "8 word"
type_synonym u16 = "16 word"
type_synonym u32 = "32 word"

text \<open>
  The repository holds two back-ends, one per target macro: \<^verbatim>\<open>pl_flash_7051.c\<close>
  (\<^verbatim>\<open>SH7051\<close>) and \<^verbatim>\<open>platf_7055_350nm.c\<close> (\<^verbatim>\<open>SH7055_35\<close>). Constants and
  functions that are textually the same in both files take the chip as a parameter;
  functions whose bodies differ are embedded twice, with the suffix of their file.
\<close>

datatype chip = SH7051 | SH7055_35

fun FL_MAXROM :: "chip \<Rightarrow> u32" where
  "FL_MAXROM SH7051 = 256 * 1024 - 1"
| "FL_MAXROM SH7055_35 = 512 * 1024 - 1"

fun CPUFREQ :: "chip \<Rightarrow> nat" where
  "CPUFREQ SH7051 = 20"
| "CPUFREQ SH7055_35 = 40"

definition WAITN_TCYCLE :: nat where
  "WAITN_TCYCLE = 4"

definition WAITN_CALCN :: "chip \<Rightarrow> nat \<Rightarrow> nat" where
  "WAITN_CALCN c usec = usec * CPUFREQ c div WAITN_TCYCLE + 1"

fun WDT_RSTCSR_SETTING :: "chip \<Rightarrow> u16" where
  "WDT_RSTCSR_SETTING SH7051 = 0x5A4F"
| "WDT_RSTCSR_SETTING SH7055_35 = 0x5A5F"

definition WDT_TCSR_ESTART :: u16 where
  "WDT_TCSR_ESTART = 0xA578 OR 0x06"

definition WDT_TCSR_WSTART :: u16 where
  "WDT_TCSR_WSTART = 0xA578 OR 0x05"

definition WDT_TCSR_STOP :: u16 where
  "WDT_TCSR_STOP = 0xA558"

text \<open>Common timing constants.\<close>

fun TSSWE :: "chip \<Rightarrow> nat" where
  "TSSWE SH7051 = WAITN_CALCN SH7051 10"
| "TSSWE SH7055_35 = WAITN_CALCN SH7055_35 1"

definition TCSWE :: "chip \<Rightarrow> nat" where
  "TCSWE c = WAITN_CALCN c 100"

text \<open>Erase timing constants.\<close>

fun TSESU :: "chip \<Rightarrow> nat" where
  "TSESU SH7051 = WAITN_CALCN SH7051 200"
| "TSESU SH7055_35 = WAITN_CALCN SH7055_35 100"

fun TSE :: "chip \<Rightarrow> nat" where
  "TSE SH7051 = WAITN_CALCN SH7051 5000"
| "TSE SH7055_35 = WAITN_CALCN SH7055_35 10000"

definition TCE :: "chip \<Rightarrow> nat" where
  "TCE c = WAITN_CALCN c 10"

definition TCESU :: "chip \<Rightarrow> nat" where
  "TCESU c = WAITN_CALCN c 10"

fun TSEV :: "chip \<Rightarrow> nat" where
  "TSEV SH7051 = WAITN_CALCN SH7051 10"
| "TSEV SH7055_35 = WAITN_CALCN SH7055_35 6"

definition TSEVR :: "chip \<Rightarrow> nat" where
  "TSEVR c = WAITN_CALCN c 2"

fun TCEV :: "chip \<Rightarrow> nat" where
  "TCEV SH7051 = WAITN_CALCN SH7051 5"
| "TCEV SH7055_35 = WAITN_CALCN SH7055_35 4"

text \<open>Write timing constants.\<close>

fun TSPSU :: "chip \<Rightarrow> nat" where
  "TSPSU SH7051 = WAITN_CALCN SH7051 300"
| "TSPSU SH7055_35 = WAITN_CALCN SH7055_35 50"

definition TSP500 :: nat where
  "TSP500 = WAITN_CALCN SH7051 500"

definition TSP10 :: nat where
  "TSP10 = WAITN_CALCN SH7055_35 10"

definition TSP30 :: nat where
  "TSP30 = WAITN_CALCN SH7055_35 30"

definition TSP200 :: nat where
  "TSP200 = WAITN_CALCN SH7055_35 200"

fun TCP :: "chip \<Rightarrow> nat" where
  "TCP SH7051 = WAITN_CALCN SH7051 10"
| "TCP SH7055_35 = WAITN_CALCN SH7055_35 5"

fun TCPSU :: "chip \<Rightarrow> nat" where
  "TCPSU SH7051 = WAITN_CALCN SH7051 10"
| "TCPSU SH7055_35 = WAITN_CALCN SH7055_35 5"

fun TSPV :: "chip \<Rightarrow> nat" where
  "TSPV SH7051 = WAITN_CALCN SH7051 10"
| "TSPV SH7055_35 = WAITN_CALCN SH7055_35 4"

fun TSPVR :: "chip \<Rightarrow> nat" where
  "TSPVR SH7051 = WAITN_CALCN SH7051 5"
| "TSPVR SH7055_35 = WAITN_CALCN SH7055_35 2"

fun TCPV :: "chip \<Rightarrow> nat" where
  "TCPV SH7051 = WAITN_CALCN SH7051 5"
| "TCPV SH7055_35 = WAITN_CALCN SH7055_35 2"

text \<open>Flash constants.\<close>

fun MAX_ET :: "chip \<Rightarrow> nat" where
  "MAX_ET SH7051 = 61"
| "MAX_ET SH7055_35 = 100"

fun MAX_WT :: "chip \<Rightarrow> nat" where
  "MAX_WT SH7051 = 400"
| "MAX_WT SH7055_35 = 1000"

definition OW_COUNT :: nat where
  "OW_COUNT = 6"

fun BLK_MAX :: "chip \<Rightarrow> u32" where
  "BLK_MAX SH7051 = 12"
| "BLK_MAX SH7055_35 = 16"

definition FLMCR2_BEGIN :: u32 where
  "FLMCR2_BEGIN = 0x20000"

definition FLMCR1_MAXBLOCK :: nat where
  "FLMCR1_MAXBLOCK = 7"

text \<open>FLMCRx bit defines (the same in both files).\<close>

definition FLMCR_FWE :: u8 where "FLMCR_FWE = 0x80"
definition FLMCR_FLER :: u8 where "FLMCR_FLER = 0x80"
definition FLMCR_SWE :: u8 where "FLMCR_SWE = 0x40"
definition FLMCR_ESU :: u8 where "FLMCR_ESU = 0x20"
definition FLMCR_PSU :: u8 where "FLMCR_PSU = 0x10"
definition FLMCR_EV :: u8 where "FLMCR_EV = 0x08"
definition FLMCR_PV :: u8 where "FLMCR_PV = 0x04"
definition FLMCR_E :: u8 where "FLMCR_E = 0x02"
definition FLMCR_P :: u8 where "FLMCR_P = 0x01"

fun fblocks :: "chip \<Rightarrow> u32 list" where
  "fblocks SH7051 =
     [0x00000000, 0x00008000, 0x00010000, 0x00018000, 0x00020000, 0x00028000,
      0x00030000, 0x00038000, 0x0003F000, 0x0003F400, 0x0003F800, 0x0003FC00,
      0x00040000]"
| "fblocks SH7055_35 =
     [0x00000000, 0x00001000, 0x00002000, 0x00003000, 0x00004000, 0x00005000,
      0x00006000, 0x00007000, 0x00008000, 0x00010000, 0x00020000, 0x00030000,
      0x00040000, 0x00050000, 0x00060000, 0x00070000, 0x00080000]"

text \<open>Response codes of \<^verbatim>\<open>npk_errcodes.h\<close> that the two files use.\<close>

definition PF_ERROR :: u32 where "PF_ERROR = 0x80"
definition PFEB_BADBLOCK :: u32 where "PFEB_BADBLOCK = 0x84 OR 0x00"
definition PFEB_VERIFAIL :: u32 where "PFEB_VERIFAIL = 0x84 OR 0x01"
definition PFWB_OOB :: u32 where "PFWB_OOB = 0x88 OR 0x00"
definition PFWB_MISALIGNED :: u32 where "PFWB_MISALIGNED = 0x88 OR 0x01"
definition PFWB_LEN :: u32 where "PFWB_LEN = 0x88 OR 0x02"
definition PFWB_VERIFAIL :: u32 where "PFWB_VERIFAIL = 0x88 OR 0x03"
definition PFWB_MAXRET :: u32 where "PFWB_MAXRET = 0x88 OR 0x04"

section \<open>The hardware as explicit state\<close>

text \<open>
  The flash control registers are byte registers that keep what was last written to
  them (a read-modify-write changes only the bits of its mask). Every access to the
  hardware is also appended to a trace, newest first: register reads and writes,
  watchdog writes, the busy-wait, the interrupt-mask calls, and the volatile accesses
  to flash addresses. What a volatile 32-bit read of a flash address returns is not
  decided by the driver: it is given by a device function of the accesses made so far
  and of the address.
\<close>

datatype flreg = FLMCR1 | FLMCR2 | EBR1 | EBR2

datatype event =
    RegRead flreg
  | RegWrite flreg u8
  | WdtTCSR u16
  | WdtRSTCSR u16
  | Waitn nat
  | Write8 u32 u8
  | Write32 u32 u32
  | Read32 u32 u32
  | ImaskSaveDisable
  | ImaskRestore

type_synonym device = "event list \<Rightarrow> u32 \<Rightarrow> u32"

record hw =
  regs :: "flreg \<Rightarrow> u8"
  pFLMCR :: flreg
  pEBR :: flreg
  reflash_enabled :: bool
  trace :: "event list"

definition emit :: "event \<Rightarrow> hw \<Rightarrow> hw" where
  "emit e s = s\<lparr>trace := e # trace s\<rparr>"

definition reg_read :: "flreg \<Rightarrow> hw \<Rightarrow> u8 \<times> hw" where
  "reg_read r s = (regs s r, emit (RegRead r) s)"

definition reg_write :: "flreg \<Rightarrow> u8 \<Rightarrow> hw \<Rightarrow> hw" where
  "reg_write r v s = emit (RegWrite r v) (s\<lparr>regs := (regs s)(r := v)\<rparr>)"

text \<open>\<^verbatim>\<open>*p |= v\<close> and \<^verbatim>\<open>*p &= v\<close> on a volatile byte register.\<close>

definition reg_or :: "flreg \<Rightarrow> u8 \<Rightarrow> hw \<Rightarrow> hw" where
  "reg_or r v s = (case reg_read r s of (x, s1) \<Rightarrow> reg_write r (x OR v) s1)"

definition reg_and :: "flreg \<Rightarrow> u8 \<Rightarrow> hw \<Rightarrow> hw" where
  "reg_and r v s = (case reg_read r s of (x, s1) \<Rightarrow> reg_write r (x AND v) s1)"

definition wdt_tcsr :: "u16 \<Rightarrow> hw \<Rightarrow> hw" where
  "wdt_tcsr v s = emit (WdtTCSR v) s"

definition wdt_rstcsr :: "u16 \<Rightarrow> hw \<Rightarrow> hw" where
  "wdt_rstcsr v s = emit (WdtRSTCSR v) s"

definition waitn :: "nat \<Rightarrow> hw \<Rightarrow> hw" where
  "waitn n s = emit (Waitn n) s"

definition write8 :: "u32 \<Rightarrow> u8 \<Rightarrow> hw \<Rightarrow> hw" where
  "write8 a v s = emit (Write8 a v) s"

definition write32 :: "u32 \<Rightarrow> u32 \<Rightarrow> hw \<Rightarrow> hw" where
  "write32 a v s = emit (Write32 a v) s"

definition read32 :: "device \<Rightarrow> u32 \<Rightarrow> hw \<Rightarrow> u32 \<times> hw" where
  "read32 rd a s = (let v = rd (trace s) a in (v, emit (Read32 a v) s))"

definition imask_savedisable :: "hw \<Rightarrow> hw" where
  "imask_savedisable s = emit ImaskSaveDisable s"

definition imask_restore :: "hw \<Rightarrow> hw" where
  "imask_restore s = emit ImaskRestore s"

section \<open>Helpers common to both files\<close>

text \<open>\<^verbatim>\<open>fwecheck\<close>: FWE of FLMCR1 must be set and FLER of FLMCR2 clear.\<close>

definition fwecheck :: "hw \<Rightarrow> bool \<times> hw" where
  "fwecheck s =
     (case reg_read FLMCR1 s of (a, s1) \<Rightarrow>
        if a AND FLMCR_FWE = 0 then (False, s1)
        else (case reg_read FLMCR2 s1 of (b, s2) \<Rightarrow>
          if b AND FLMCR_FLER \<noteq> 0 then (False, s2) else (True, s2)))"

text \<open>
  \<^verbatim>\<open>sweset\<close> and \<^verbatim>\<open>sweclear\<close>: the SH7051 file writes the SWE bit-field of FLMCR1,
  the SH7055 file goes through \<^verbatim>\<open>pFLMCR\<close>.
\<close>

definition sweset_7051 :: "hw \<Rightarrow> hw" where
  "sweset_7051 s = waitn (TSSWE SH7051) (reg_or FLMCR1 FLMCR_SWE s)"

definition sweclear_7051 :: "hw \<Rightarrow> hw" where
  "sweclear_7051 s = waitn (TCSWE SH7051) (reg_and FLMCR1 (NOT FLMCR_SWE) s)"

definition sweset_7055 :: "hw \<Rightarrow> hw" where
  "sweset_7055 s = waitn (TSSWE SH7055_35) (reg_or (pFLMCR s) FLMCR_SWE s)"

definition sweclear_7055 :: "hw \<Rightarrow> hw" where
  "sweclear_7055 s = waitn (TCSWE SH7055_35) (reg_and (pFLMCR s) (NOT FLMCR_SWE) s)"

section \<open>Erase\<close>

text \<open>
  \<^verbatim>\<open>ferasevf\<close>, the same text in both files. The pointers \<^verbatim>\<open>cur\<close> and \<^verbatim>\<open>end\<close>
  come from \<^verbatim>\<open>fblocks\<close>, whose entries are below \<open>2 ^ 20\<close>: the pointer arithmetic
  is done on \<open>nat\<close>, \<^verbatim>\<open>cur++\<close> on a \<^verbatim>\<open>u32 *\<close> adding 4. The loop returns the flag
  \<^verbatim>\<open>rv\<close>; the \<^verbatim>\<open>break\<close> is the branch that does not recurse.
\<close>

function ferasevf_loop :: "chip \<Rightarrow> device \<Rightarrow> nat \<Rightarrow> nat \<Rightarrow> hw \<Rightarrow> bool \<times> hw" where
  "ferasevf_loop c rd cur end s =
     (if cur < end then
        (let s1 = reg_or (pFLMCR s) FLMCR_EV s;
             s2 = waitn (TSEV c) s1;
             s3 = write32 (of_nat cur) 0xFFFFFFFF s2;
             s4 = waitn (TSEVR c) s3
         in case read32 rd (of_nat cur) s4 of (v, s5) \<Rightarrow>
              if v \<noteq> 0xFFFFFFFF then (False, s5)
              else ferasevf_loop c rd (cur + 4) end s5)
      else (True, s))"
  by pat_completeness auto
termination
  by (relation "measure (\<lambda>(c, rd, cur, end, s). end - cur)") auto

definition ferasevf :: "chip \<Rightarrow> device \<Rightarrow> nat \<Rightarrow> hw \<Rightarrow> bool \<times> hw" where
  "ferasevf c rd blockno s =
     (case ferasevf_loop c rd (unat (fblocks c ! blockno)) (unat (fblocks c ! (blockno + 1))) s
      of (rv, s1) \<Rightarrow>
        (rv, waitn (TCEV c) (reg_and (pFLMCR s1) (NOT FLMCR_EV) s1)))"

text \<open>The \<^verbatim>\<open>while (blockno) { bitsel <<= 1; blockno -= 1; }\<close> loop of \<^verbatim>\<open>ferase\<close>.\<close>

fun bitsel_loop :: "nat \<Rightarrow> u32 \<Rightarrow> u32" where
  "bitsel_loop 0 bitsel = bitsel"
| "bitsel_loop (Suc blockno) bitsel = bitsel_loop blockno (push_bit 1 bitsel)"

text \<open>The erase pulse itself, the same statements in both files.\<close>

definition erasepulse :: "chip \<Rightarrow> hw \<Rightarrow> hw" where
  "erasepulse c s =
     (let s1 = wdt_tcsr WDT_TCSR_STOP s;
          s2 = wdt_tcsr WDT_TCSR_ESTART s1;
          s3 = reg_or (pFLMCR s2) FLMCR_ESU s2;
          s4 = waitn (TSESU c) s3;
          s5 = reg_or (pFLMCR s4) FLMCR_E s4;
          s6 = waitn (TSE c) s5;
          s7 = reg_and (pFLMCR s6) (NOT FLMCR_E) s6;
          s8 = waitn (TCE c) s7;
          s9 = reg_and (pFLMCR s8) (NOT FLMCR_ESU) s8;
          s10 = waitn (TCESU c) s9
      in wdt_tcsr WDT_TCSR_STOP s10)"

definition ferase_7051 :: "nat \<Rightarrow> hw \<Rightarrow> hw" where
  "ferase_7051 blockno s =
     (let bitsel = bitsel_loop blockno 1;
          s1 = reg_write EBR2 0 s;
          s2 = reg_write EBR1 (ucast (bitsel AND 0x0F)) s1;
          s3 = reg_write EBR2 (ucast (drop_bit 4 bitsel AND 0xFF)) s2;
          s4 = erasepulse SH7051 s3;
          s5 = reg_write EBR1 0 s4
      in reg_write EBR2 0 s5)"

definition ferase_7055 :: "nat \<Rightarrow> hw \<Rightarrow> hw" where
  "ferase_7055 blockno s =
     (let bitsel = bitsel_loop (unat ((of_nat blockno :: u32) AND 0x07)) 1;
          s1 = reg_write (pEBR s) (ucast bitsel) s;
          s2 = erasepulse SH7055_35 s1
      in reg_write (pEBR s2) 0 s2)"

text \<open>The retry loop of \<^verbatim>\<open>platf_flash_eb\<close>, with the exit after it.\<close>

function eb_loop_7051 :: "device \<Rightarrow> nat \<Rightarrow> nat \<Rightarrow> hw \<Rightarrow> u32 \<times> hw" where
  "eb_loop_7051 rd blockno count s =
     (if count < MAX_ET SH7051 then
        (case ferasevf SH7051 rd blockno (ferase_7051 blockno s) of (ok, s1) \<Rightarrow>
           if ok then (0, sweclear_7051 s1)
           else eb_loop_7051 rd blockno (count + 1) s1)
      else (PFEB_VERIFAIL, sweclear_7051 s))"
  by pat_completeness auto
termination
  by (relation "measure (\<lambda>(rd, blockno, count, s). MAX_ET SH7051 - count)") auto

function eb_loop_7055 :: "device \<Rightarrow> nat \<Rightarrow> nat \<Rightarrow> hw \<Rightarrow> u32 \<times> hw" where
  "eb_loop_7055 rd blockno count s =
     (if count < MAX_ET SH7055_35 then
        (case ferasevf SH7055_35 rd blockno (ferase_7055 blockno s) of (ok, s1) \<Rightarrow>
           if ok then (0, sweclear_7055 s1)
           else eb_loop_7055 rd blockno (count + 1) s1)
      else (- 1, sweclear_7055 s))"
  by pat_completeness auto
termination
  by (relation "measure (\<lambda>(rd, blockno, count, s). MAX_ET SH7055_35 - count)") auto

definition platf_flash_eb_7051 :: "device \<Rightarrow> u32 \<Rightarrow> hw \<Rightarrow> u32 \<times> hw" where
  "platf_flash_eb_7051 rd blockno s =
     (if blockno \<ge> BLK_MAX SH7051 then (PFEB_BADBLOCK, s)
      else if \<not> reflash_enabled s then (0, s)
      else
        (let s1 = (if fblocks SH7051 ! unat blockno \<ge> FLMCR2_BEGIN
                   then s\<lparr>pFLMCR := FLMCR2\<rparr> else s\<lparr>pFLMCR := FLMCR1\<rparr>)
         in case fwecheck s1 of (ok, s2) \<Rightarrow>
              if \<not> ok then (PF_ERROR, s2)
              else
                (let s3 = sweset_7051 s2;
                     s4 = wdt_tcsr WDT_TCSR_STOP s3;
                     s5 = wdt_rstcsr (WDT_RSTCSR_SETTING SH7051) s4
                 in eb_loop_7051 rd (unat blockno) 0 s5)))"

definition platf_flash_eb_7055 :: "device \<Rightarrow> u32 \<Rightarrow> hw \<Rightarrow> u32 \<times> hw" where
  "platf_flash_eb_7055 rd blockno s =
     (if blockno \<ge> BLK_MAX SH7055_35 then (PFEB_BADBLOCK, s)
      else if \<not> reflash_enabled s then (0, s)
      else
        (let s1 = (if unat blockno > FLMCR1_MAXBLOCK
                   then s\<lparr>pFLMCR := FLMCR1, pEBR := EBR1\<rparr>
                   else s\<lparr>pFLMCR := FLMCR2, pEBR := EBR2\<rparr>)
         in case fwecheck s1 of (ok, s2) \<Rightarrow>
              if \<not> ok then (- 1, s2)
              else
                (let s3 = sweset_7055 s2;
                     s4 = wdt_tcsr WDT_TCSR_STOP s3;
                     s5 = wdt_rstcsr (WDT_RSTCSR_SETTING SH7055_35) s4
                 in eb_loop_7055 rd (unat blockno) 0 s5)))"

section \<open>Write\<close>

text \<open>
  The SH-2 core is big-endian: a \<^verbatim>\<open>u32\<close> access to a byte buffer or to RAM puts the
  byte at the lowest address in the most significant position.
\<close>

definition be32 :: "u8 \<Rightarrow> u8 \<Rightarrow> u8 \<Rightarrow> u8 \<Rightarrow> u32" where
  "be32 b0 b1 b2 b3 =
     push_bit 24 (ucast b0) OR push_bit 16 (ucast b1) OR push_bit 8 (ucast b2) OR ucast b3"

text \<open>\<^verbatim>\<open>*(u32 *) (buf + cur)\<close> read and written, for a local \<^verbatim>\<open>u8\<close> array.\<close>

definition ld32 :: "u8 list \<Rightarrow> nat \<Rightarrow> u32" where
  "ld32 buf cur = be32 (buf ! cur) (buf ! (cur + 1)) (buf ! (cur + 2)) (buf ! (cur + 3))"

definition st32 :: "u8 list \<Rightarrow> nat \<Rightarrow> u32 \<Rightarrow> u8 list" where
  "st32 buf cur v =
     buf[cur := ucast (drop_bit 24 v), cur + 1 := ucast (drop_bit 16 v),
         cur + 2 := ucast (drop_bit 8 v), cur + 3 := ucast v]"

text \<open>
  Ordinary memory, as the caller left it: the source data lives there. \<^verbatim>\<open>memcpy\<close>
  out of it gives the local array; \<^verbatim>\<open>*(u32 *) (src + cur)\<close> on the address itself
  reads it in place.
\<close>

type_synonym ram = "u32 \<Rightarrow> u8"

definition memcpy_from :: "ram \<Rightarrow> u32 \<Rightarrow> nat \<Rightarrow> u8 list" where
  "memcpy_from mem a n = map (\<lambda>i. mem (a + of_nat i)) [0..<n]"

definition ram32 :: "ram \<Rightarrow> u32 \<Rightarrow> u32" where
  "ram32 mem a = be32 (mem a) (mem (a + 1)) (mem (a + 2)) (mem (a + 3))"

text \<open>The byte-transfer loop \<^verbatim>\<open>for (cur = 0; cur < n; cur++) dest[cur] = buf[cur]\<close>.\<close>

definition latch :: "u32 \<Rightarrow> u8 list \<Rightarrow> nat \<Rightarrow> hw \<Rightarrow> hw" where
  "latch dest buf n s = fold (\<lambda>cur. write8 (dest + of_nat cur) (buf ! cur)) [0..<n] s"

text \<open>C's logical negation \<^verbatim>\<open>!x\<close>, as a byte.\<close>

definition c_lnot :: "u8 \<Rightarrow> u8" where
  "c_lnot x = (if x = 0 then 1 else 0)"

text \<open>
  The read of one word under program verify, the same three statements in both files:
  the dummy write of \<^verbatim>\<open>0xFFFFFFFF\<close>, the wait, and the volatile read that gives
  \<^verbatim>\<open>verifdata\<close>.
\<close>

definition verify_read :: "chip \<Rightarrow> device \<Rightarrow> u32 \<Rightarrow> hw \<Rightarrow> u32 \<times> hw" where
  "verify_read c rd a s = read32 rd a (waitn (TSPVR c) (write32 a (- 1) s))"

subsection \<open>SH7051: \<^verbatim>\<open>writepulse\<close>, \<^verbatim>\<open>flash_write32\<close>, \<^verbatim>\<open>platf_flash_wb\<close>\<close>

definition writepulse_7051 :: "u32 \<Rightarrow> u8 list \<Rightarrow> nat \<Rightarrow> hw \<Rightarrow> hw" where
  "writepulse_7051 dest src tsp s =
     (let s0 = latch dest src 32 s;
          s1 = imask_savedisable s0;
          s2 = wdt_tcsr WDT_TCSR_STOP s1;
          s3 = wdt_tcsr WDT_TCSR_WSTART s2;
          s4 = reg_or (pFLMCR s3) FLMCR_PSU s3;
          s5 = waitn (TSPSU SH7051) s4;
          s6 = reg_or (pFLMCR s5) FLMCR_P s5;
          s7 = waitn tsp s6;
          s8 = reg_and (pFLMCR s7) (NOT FLMCR_P) s7;
          s9 = waitn (TCP SH7051) s8;
          s10 = reg_and (pFLMCR s9) (NOT FLMCR_PSU) s9;
          s11 = waitn (TCPSU SH7051) s10;
          s12 = wdt_tcsr WDT_TCSR_STOP s11
      in imask_restore s12)"

text \<open>
  One turn of the program-verify loop over the words of the chunk. \<open>Inl\<close> is the
  \<^verbatim>\<open>goto badexit\<close> with the value of \<^verbatim>\<open>rv\<close>; \<open>Inr\<close> carries the flag \<^verbatim>\<open>m\<close>, the
  array \<^verbatim>\<open>reprog\<close> and the hardware on to the next word.
\<close>

definition pv_word_7051 ::
  "device \<Rightarrow> u32 \<Rightarrow> u8 list \<Rightarrow> nat \<Rightarrow> bool \<times> u8 list \<times> hw \<Rightarrow> u32 \<times> hw + bool \<times> u8 list \<times> hw"
where
  "pv_word_7051 rd dest src cur st =
     (case st of (m, reprog, s) \<Rightarrow>
        (case verify_read SH7051 rd (dest + of_nat cur) s of (verifdata, s3) \<Rightarrow>
           (let srcdata = ld32 src cur;
                m1 = (if verifdata \<noteq> srcdata then True else m)
            in if srcdata AND NOT verifdata \<noteq> 0 then Inl (PFWB_VERIFAIL, s3)
               else Inr (m1, st32 reprog cur (srcdata OR NOT verifdata), s3))))"

function pv_loop_7051 ::
  "device \<Rightarrow> u32 \<Rightarrow> u8 list \<Rightarrow> nat \<Rightarrow> bool \<times> u8 list \<times> hw \<Rightarrow> u32 \<times> hw + bool \<times> u8 list \<times> hw"
where
  "pv_loop_7051 rd dest src cur st =
     (if cur < 32 then
        (case pv_word_7051 rd dest src cur st of
           Inl bad \<Rightarrow> Inl bad
         | Inr st1 \<Rightarrow> pv_loop_7051 rd dest src (cur + 4) st1)
      else Inr st)"
  by pat_completeness auto
termination
  by (relation "measure (\<lambda>(rd, dest, src, cur, st). 32 - cur)") auto

text \<open>
  The retry loop \<^verbatim>\<open>for (n=1; n < MAX_WT; n++)\<close> with the two exits after it:
  \<^verbatim>\<open>rv = PFWB_MAXRET\<close> falling into \<^verbatim>\<open>badexit\<close>, and \<^verbatim>\<open>badexit\<close> itself.
\<close>

function write_loop_7051 :: "device \<Rightarrow> u32 \<Rightarrow> u8 list \<Rightarrow> nat \<Rightarrow> u8 list \<Rightarrow> hw \<Rightarrow> u32 \<times> hw" where
  "write_loop_7051 rd dest src n reprog s =
     (if n < MAX_WT SH7051 then
        (let s1 = writepulse_7051 dest reprog TSP500 s;
             s2 = reg_or (pFLMCR s1) FLMCR_PV s1;
             s3 = waitn (TSPV SH7051) s2
         in case pv_loop_7051 rd dest src 0 (False, reprog, s3) of
              Inl (rv, s4) \<Rightarrow> (rv, sweclear_7051 s4)
            | Inr (m, reprog1, s4) \<Rightarrow>
                (let s5 = reg_and (pFLMCR s4) (NOT FLMCR_PV) s4;
                     s6 = waitn (TCPV SH7051) s5
                 in if \<not> m then (0, sweclear_7051 s6)
                    else write_loop_7051 rd dest src (n + 1) reprog1 s6))
      else (PFWB_MAXRET, sweclear_7051 s))"
  by pat_completeness auto
termination
  by (relation "measure (\<lambda>(rd, dest, src, n, reprog, s). MAX_WT SH7051 - n)") auto

definition flash_write32 :: "device \<Rightarrow> ram \<Rightarrow> u32 \<Rightarrow> u32 \<Rightarrow> hw \<Rightarrow> u32 \<times> hw" where
  "flash_write32 rd mem dest src_unaligned s =
     (let s1 = (if dest < FLMCR2_BEGIN then s\<lparr>pFLMCR := FLMCR1\<rparr> else s\<lparr>pFLMCR := FLMCR2\<rparr>)
      in case fwecheck s1 of (ok, s2) \<Rightarrow>
           if \<not> ok then (PF_ERROR, s2)
           else
             (let src = memcpy_from mem src_unaligned 32;
                  reprog = src;
                  s3 = sweset_7051 s2;
                  s4 = wdt_tcsr WDT_TCSR_STOP s3;
                  s5 = wdt_rstcsr (WDT_RSTCSR_SETTING SH7051) s4
              in write_loop_7051 rd dest src 1 reprog s5))"

text \<open>
  \<^verbatim>\<open>while (len)\<close> counts a \<^verbatim>\<open>uint32_t\<close> down by the chunk size and leaves only at
  exactly 0, so by itself it need not end: \<open>None\<close> is the loop that never returns.
\<close>

partial_function (option) wb_loop_7051 ::
  "device \<Rightarrow> ram \<Rightarrow> u32 \<Rightarrow> u32 \<Rightarrow> u32 \<Rightarrow> hw \<Rightarrow> (u32 \<times> hw) option"
where
  "wb_loop_7051 rd mem dest src len s =
     (if len \<noteq> 0 then
        (case flash_write32 rd mem dest src s of (rv, s1) \<Rightarrow>
           if rv \<noteq> 0 then Some (rv, s1)
           else wb_loop_7051 rd mem (dest + 32) (src + 32) (len - 32) s1)
      else Some (0, s))"

definition platf_flash_wb_7051 ::
  "device \<Rightarrow> ram \<Rightarrow> u32 \<Rightarrow> u32 \<Rightarrow> u32 \<Rightarrow> hw \<Rightarrow> (u32 \<times> hw) option"
where
  "platf_flash_wb_7051 rd mem dest src len s =
     (if dest > FL_MAXROM SH7051 then Some (PFWB_OOB, s)
      else if dest AND 0x1F \<noteq> 0 then Some (PFWB_MISALIGNED, s)
      else if len AND 0x1F \<noteq> 0 then Some (PFWB_LEN, s)
      else if \<not> reflash_enabled s then Some (0, s)
      else wb_loop_7051 rd mem dest src len s)"

subsection \<open>SH7055: \<^verbatim>\<open>writepulse\<close>, \<^verbatim>\<open>flash_write128\<close>, \<^verbatim>\<open>platf_flash_wb\<close>\<close>

text \<open>The setup bit is lowered with \<^verbatim>\<open>*pFLMCR &= !FLMCR_PSU\<close> in this file.\<close>

definition writepulse_7055 :: "nat \<Rightarrow> hw \<Rightarrow> hw" where
  "writepulse_7055 tsp s =
     (let s1 = imask_savedisable s;
          s2 = wdt_tcsr WDT_TCSR_STOP s1;
          s3 = wdt_tcsr WDT_TCSR_WSTART s2;
          s4 = reg_or (pFLMCR s3) FLMCR_PSU s3;
          s5 = waitn (TSPSU SH7055_35) s4;
          s6 = reg_or (pFLMCR s5) FLMCR_P s5;
          s7 = waitn tsp s6;
          s8 = reg_and (pFLMCR s7) (NOT FLMCR_P) s7;
          s9 = waitn (TCP SH7055_35) s8;
          s10 = reg_and (pFLMCR s9) (c_lnot FLMCR_PSU) s9;
          s11 = waitn (TCPSU SH7055_35) s10;
          s12 = wdt_tcsr WDT_TCSR_STOP s11
      in imask_restore s12)"

text \<open>
  One turn of the program-verify loop. \<^verbatim>\<open>srcdata\<close> is read in place at the address
  \<^verbatim>\<open>src + cur\<close>; the fault test of this file is \<^verbatim>\<open>src & ~verifdata\<close>, on the
  address \<^verbatim>\<open>src\<close>.
\<close>

definition pv_word_7055 ::
  "device \<Rightarrow> ram \<Rightarrow> u32 \<Rightarrow> u32 \<Rightarrow> nat \<Rightarrow> nat \<Rightarrow> bool \<times> u8 list \<times> u8 list \<times> hw
     \<Rightarrow> u32 \<times> hw + bool \<times> u8 list \<times> u8 list \<times> hw"
where
  "pv_word_7055 rd mem dest src n cur st =
     (case st of (m, reprog, addit, s) \<Rightarrow>
        (case verify_read SH7055_35 rd (dest + of_nat cur) s of (verifdata, s3) \<Rightarrow>
           (let srcdata = ram32 mem (src + of_nat cur);
                m1 = (if verifdata \<noteq> ld32 reprog cur then True else m);
                addit1 = (if n \<le> 6 then st32 addit cur (verifdata OR ld32 reprog cur)
                          else addit)
            in if src AND NOT verifdata \<noteq> 0 then Inl (- 1, s3)
               else Inr (m1, st32 reprog cur (srcdata OR NOT verifdata), addit1, s3))))"

function pv_loop_7055 ::
  "device \<Rightarrow> ram \<Rightarrow> u32 \<Rightarrow> u32 \<Rightarrow> nat \<Rightarrow> nat \<Rightarrow> bool \<times> u8 list \<times> u8 list \<times> hw
     \<Rightarrow> u32 \<times> hw + bool \<times> u8 list \<times> u8 list \<times> hw"
where
  "pv_loop_7055 rd mem dest src n cur st =
     (if cur < 128 then
        (case pv_word_7055 rd mem dest src n cur st of
           Inl bad \<Rightarrow> Inl bad
         | Inr st1 \<Rightarrow> pv_loop_7055 rd mem dest src n (cur + 4) st1)
      else Inr st)"
  by pat_completeness auto
termination
  by (relation "measure (\<lambda>(rd, mem, dest, src, n, cur, st). 128 - cur)") auto

text \<open>
  One pass through the body of \<^verbatim>\<open>while (n < MAX_WT)\<close>: latch, pulse, program verify,
  additional pulse. \<open>Inl\<close> is the \<^verbatim>\<open>goto badexit\<close>.
\<close>

definition write_attempt_7055 ::
  "device \<Rightarrow> ram \<Rightarrow> u32 \<Rightarrow> u32 \<Rightarrow> nat \<Rightarrow> u8 list \<times> u8 list \<times> hw
     \<Rightarrow> u32 \<times> hw + bool \<times> u8 list \<times> u8 list \<times> hw"
where
  "write_attempt_7055 rd mem dest src n st =
     (case st of (reprog, addit, s) \<Rightarrow>
        (let s0 = latch dest reprog 128 s;
             s1 = (if n \<le> OW_COUNT then writepulse_7055 TSP30 s0 else writepulse_7055 TSP200 s0);
             s2 = reg_or (pFLMCR s1) FLMCR_PV s1;
             s3 = waitn (TSPV SH7055_35) s2
         in case pv_loop_7055 rd mem dest src n 0 (False, reprog, addit, s3) of
              Inl bad \<Rightarrow> Inl bad
            | Inr (m, reprog1, addit1, s4) \<Rightarrow>
                (let s5 = reg_and (pFLMCR s4) (NOT FLMCR_PV) s4;
                     s6 = waitn (TCPV SH7055_35) s5;
                     s7 = (if n \<le> 6 then writepulse_7055 TSP10 (latch dest addit1 128 s6) else s6)
                 in Inr (m, reprog1, addit1, s7))))"

text \<open>
  The loop \<^verbatim>\<open>n = 1; while (n < MAX_WT) { ... }\<close> and what follows it. The body never
  assigns \<^verbatim>\<open>n\<close>, so the next turn runs with the same \<^verbatim>\<open>n\<close>; the test of \<^verbatim>\<open>m\<close> is
  after the loop. \<open>None\<close> is the loop that never returns.
\<close>

partial_function (option) write_loop_7055 ::
  "device \<Rightarrow> ram \<Rightarrow> u32 \<Rightarrow> u32 \<Rightarrow> nat \<Rightarrow> bool \<times> u8 list \<times> u8 list \<times> hw \<Rightarrow> (u32 \<times> hw) option"
where
  "write_loop_7055 rd mem dest src n st =
     (case st of (m, reprog, addit, s) \<Rightarrow>
        if n < MAX_WT SH7055_35 then
          (case write_attempt_7055 rd mem dest src n (reprog, addit, s) of
             Inl (rv, s1) \<Rightarrow> Some (rv, sweclear_7055 s1)
           | Inr st1 \<Rightarrow> write_loop_7055 rd mem dest src n st1)
        else if \<not> m then Some (0, sweclear_7055 s)
        else Some (- 1, sweclear_7055 s))"

text \<open>
  \<^verbatim>\<open>m\<close> and \<^verbatim>\<open>addit\<close> are declared without a value; the first turn of the loop
  assigns \<^verbatim>\<open>m\<close>, and every word of \<^verbatim>\<open>addit\<close> is stored before \<^verbatim>\<open>addit\<close> is read.
  The model starts them at \<open>False\<close> and at zero bytes.
\<close>

definition flash_write128 :: "device \<Rightarrow> ram \<Rightarrow> u32 \<Rightarrow> u32 \<Rightarrow> hw \<Rightarrow> (u32 \<times> hw) option" where
  "flash_write128 rd mem dest src s =
     (let s1 = (if dest < fblocks SH7055_35 ! (FLMCR1_MAXBLOCK + 1)
                then s\<lparr>pFLMCR := FLMCR1\<rparr> else s\<lparr>pFLMCR := FLMCR2\<rparr>)
      in case fwecheck s1 of (ok, s2) \<Rightarrow>
           if \<not> ok then Some (- 1, s2)
           else
             (let reprog = memcpy_from mem src 128;
                  s3 = sweset_7055 s2;
                  s4 = wdt_tcsr WDT_TCSR_STOP s3;
                  s5 = wdt_rstcsr (WDT_RSTCSR_SETTING SH7055_35) s4
              in write_loop_7055 rd mem dest src 1 (False, reprog, replicate 128 0, s5)))"

partial_function (option) wb_loop_7055 ::
  "device \<Rightarrow> ram \<Rightarrow> u32 \<Rightarrow> u32 \<Rightarrow> u32 \<Rightarrow> hw \<Rightarrow> (u32 \<times> hw) option"
where
  "wb_loop_7055 rd mem dest src len s =
     (if len \<noteq> 0 then
        (case (if reflash_enabled s then flash_write128 rd mem dest src s else Some (0, s)) of
           None \<Rightarrow> None
         | Some (rv, s1) \<Rightarrow>
             if rv \<noteq> 0 then Some (rv, s1)
             else wb_loop_7055 rd mem (dest + 128) (src + 128) (len - 128) s1)
      else Some (0, s))"

definition platf_flash_wb_7055 ::
  "device \<Rightarrow> ram \<Rightarrow> u32 \<Rightarrow> u32 \<Rightarrow> u32 \<Rightarrow> hw \<Rightarrow> (u32 \<times> hw) option"
where
  "platf_flash_wb_7055 rd mem dest src len s =
     (if dest > FL_MAXROM SH7055_35 then Some (PFWB_OOB, s)
      else if dest AND 0x7F \<noteq> 0 then Some (PFWB_MISALIGNED, s)
      else if len AND 0x7F \<noteq> 0 then Some (PFWB_LEN, s)
      else wb_loop_7055 rd mem dest src len s)"

section \<open>Init and unprotect\<close>

text \<open>
  \<^verbatim>\<open>platf_flash_init\<close> returns the flag and, when the check fails, the byte stored
  through \<^verbatim>\<open>err\<close> (\<^verbatim>\<open>PF_ERROR\<close> in one file, \<^verbatim>\<open>FL_ERROR\<close> in the other, both 0x80).
\<close>

definition platf_flash_init :: "hw \<Rightarrow> (bool \<times> u8 option) \<times> hw" where
  "platf_flash_init s =
     (case fwecheck (s\<lparr>reflash_enabled := False\<rparr>) of (ok, s1) \<Rightarrow>
        if \<not> ok then ((False, Some 0x80), s1) else ((True, None), s1))"

definition platf_flash_unprotect :: "hw \<Rightarrow> hw" where
  "platf_flash_unprotect s = s\<lparr>reflash_enabled := True\<rparr>"

section \<open>Concrete hardware for the examples\<close>

text \<open>
  The registers after reset with the FWE pin asserted and no error latched, the session
  still locked; and the same after \<^verbatim>\<open>platf_flash_unprotect\<close>.
\<close>

definition hw_reset :: hw where
  "hw_reset =
     \<lparr>regs = (\<lambda>r. 0)(FLMCR1 := FLMCR_FWE), pFLMCR = FLMCR1, pEBR = EBR1,
      reflash_enabled = False, trace = []\<rparr>"

definition hw_unlocked :: hw where
  "hw_unlocked = platf_flash_unprotect hw_reset"

text \<open>
  Four devices: one whose cells always read back erased, one whose cells always read
  back 0, one where bit 0 of every word reads back 0 and the other bits 1, and one where
  the low 12 bits of every word read back 0 and the other bits 1.
\<close>

definition dev_blank :: device where
  "dev_blank tr a = 0xFFFFFFFF"

definition dev_zero :: device where
  "dev_zero tr a = 0"

definition dev_bit0_low :: device where
  "dev_bit0_low tr a = 0xFFFFFFFE"

definition dev_low12 :: device where
  "dev_low12 tr a = 0xFFFFF000"

text \<open>Source data in RAM: all bytes 0xFF, and all bytes 0.\<close>

definition ram_ones :: ram where
  "ram_ones a = 0xFF"

definition ram_zero :: ram where
  "ram_zero a = 0"

section \<open>Auxiliary predicates\<close>

text \<open>The driver's own globals agree in two states (the hardware may differ).\<close>

definition same_globals :: "hw \<Rightarrow> hw \<Rightarrow> bool" where
  "same_globals s s' \<longleftrightarrow>
     pFLMCR s' = pFLMCR s \<and> pEBR s' = pEBR s \<and> reflash_enabled s' = reflash_enabled s"

text \<open>What \<^verbatim>\<open>fwecheck\<close> tests: FWE set in FLMCR1 and FLER clear in FLMCR2.\<close>

definition fwe_ok :: "hw \<Rightarrow> bool" where
  "fwe_ok s \<longleftrightarrow> regs s FLMCR1 AND FLMCR_FWE \<noteq> 0 \<and> regs s FLMCR2 AND FLMCR_FLER = 0"

text \<open>
  The two straight-line parts of one pass through the SH7055 retry loop, named so that
  lemmas can speak about them: from the latch to the start of the program verify, and
  from the end of the program verify to the end of the pass.
\<close>

definition pv_entry_7055 :: "u32 \<Rightarrow> nat \<Rightarrow> u8 list \<Rightarrow> hw \<Rightarrow> hw" where
  "pv_entry_7055 dest n reprog s =
     (let s0 = latch dest reprog 128 s;
          s1 = (if n \<le> OW_COUNT then writepulse_7055 TSP30 s0 else writepulse_7055 TSP200 s0);
          s2 = reg_or (pFLMCR s1) FLMCR_PV s1
      in waitn (TSPV SH7055_35) s2)"

definition pv_exit_7055 :: "u32 \<Rightarrow> nat \<Rightarrow> u8 list \<Rightarrow> hw \<Rightarrow> hw" where
  "pv_exit_7055 dest n addit1 s4 =
     (let s5 = reg_and (pFLMCR s4) (NOT FLMCR_PV) s4;
          s6 = waitn (TCPV SH7055_35) s5
      in if n \<le> 6 then writepulse_7055 TSP10 (latch dest addit1 128 s6) else s6)"

text \<open>
  The same for the straight-line parts of \<^verbatim>\<open>flash_write32\<close> and of the entry of
  \<^verbatim>\<open>flash_write128\<close>: the choice of \<^verbatim>\<open>pFLMCR\<close>, the statements between
  \<^verbatim>\<open>fwecheck\<close> and the loop, and the statements around the program-verify loop.
\<close>

definition select_7051 :: "u32 \<Rightarrow> hw \<Rightarrow> hw" where
  "select_7051 dest s = (if dest < FLMCR2_BEGIN then s\<lparr>pFLMCR := FLMCR1\<rparr> else s\<lparr>pFLMCR := FLMCR2\<rparr>)"

definition armed_7051 :: "hw \<Rightarrow> hw" where
  "armed_7051 s2 =
     wdt_rstcsr (WDT_RSTCSR_SETTING SH7051) (wdt_tcsr WDT_TCSR_STOP (sweset_7051 s2))"

definition pv_entry_7051 :: "u32 \<Rightarrow> u8 list \<Rightarrow> hw \<Rightarrow> hw" where
  "pv_entry_7051 dest reprog s =
     (let s1 = writepulse_7051 dest reprog TSP500 s;
          s2 = reg_or (pFLMCR s1) FLMCR_PV s1
      in waitn (TSPV SH7051) s2)"

definition pv_exit_7051 :: "hw \<Rightarrow> hw" where
  "pv_exit_7051 s4 = waitn (TCPV SH7051) (reg_and (pFLMCR s4) (NOT FLMCR_PV) s4)"

definition select_7055 :: "u32 \<Rightarrow> hw \<Rightarrow> hw" where
  "select_7055 dest s =
     (if dest < fblocks SH7055_35 ! (FLMCR1_MAXBLOCK + 1)
      then s\<lparr>pFLMCR := FLMCR1\<rparr> else s\<lparr>pFLMCR := FLMCR2\<rparr>)"

definition armed_7055 :: "hw \<Rightarrow> hw" where
  "armed_7055 s2 =
     wdt_rstcsr (WDT_RSTCSR_SETTING SH7055_35) (wdt_tcsr WDT_TCSR_STOP (sweset_7055 s2))"

text \<open>The hardware state that a result of the program-verify loop carries.\<close>

definition out_hw_7051 :: "u32 \<times> hw + bool \<times> u8 list \<times> hw \<Rightarrow> hw" where
  "out_hw_7051 r = (case r of Inl (rv, s) \<Rightarrow> s | Inr (m, reprog, s) \<Rightarrow> s)"

definition out_hw_7055 :: "u32 \<times> hw + bool \<times> u8 list \<times> u8 list \<times> hw \<Rightarrow> hw" where
  "out_hw_7055 r = (case r of Inl (rv, s) \<Rightarrow> s | Inr (m, reprog, addit, s) \<Rightarrow> s)"

text \<open>
  The value of the most recent \<^verbatim>\<open>u32\<close> read at an address, in a trace (the newest
  access is at the head).
\<close>

fun last_read :: "event list \<Rightarrow> u32 \<Rightarrow> u32 option" where
  "last_read [] a = None"
| "last_read (Read32 b v # tr) a = (if b = a then Some v else last_read tr a)"
| "last_read (e # tr) a = last_read tr a"

text \<open>
  A state that comes after another on the same path: same globals, a trace that has the
  earlier one as its end, and the FWE and FLER bits unchanged.
\<close>

definition later :: "hw \<Rightarrow> hw \<Rightarrow> bool" where
  "later s s' \<longleftrightarrow>
     same_globals s s' \<and> suffix (trace s) (trace s') \<and>
     regs s' FLMCR1 AND FLMCR_FWE = regs s FLMCR1 AND FLMCR_FWE \<and>
     regs s' FLMCR2 AND FLMCR_FLER = regs s FLMCR2 AND FLMCR_FLER"

text \<open>
  The running example for the reprogram buffer: a chunk whose source is all 0 bytes, on
  a device where the low 12 bits of every word read back 0. The program-verify pass of
  the first attempt of the SH7051 loop, and the first attempt of the SH7055 loop with
  the source at \<open>0xFFFF9000\<close>.
\<close>

definition low12_pass_7051 :: "u32 \<times> hw + bool \<times> u8 list \<times> hw" where
  "low12_pass_7051 =
     pv_loop_7051 dev_low12 0 (replicate 32 0) 0
       (False, replicate 32 0, pv_entry_7051 0 (replicate 32 0) hw_unlocked)"

definition low12_attempt_7055 :: "u32 \<times> hw + bool \<times> u8 list \<times> u8 list \<times> hw" where
  "low12_attempt_7055 =
     write_attempt_7055 dev_low12 ram_zero 0 0xFFFF9000 1
       (replicate 128 0, replicate 128 0, hw_unlocked)"

section \<open>Collected definitions\<close>

text \<open>
  The loop equations are recursive in themselves; they are applied by hand, one turn
  at a time.
\<close>

declare ferasevf_loop.simps [simp del]
declare eb_loop_7051.simps [simp del]
declare eb_loop_7055.simps [simp del]
declare pv_loop_7051.simps [simp del]
declare pv_loop_7055.simps [simp del]
declare write_loop_7051.simps [simp del]

lemmas FLMCR_bits =
  FLMCR_FWE_def FLMCR_FLER_def FLMCR_SWE_def FLMCR_ESU_def FLMCR_PSU_def
  FLMCR_EV_def FLMCR_PV_def FLMCR_E_def FLMCR_P_def

lemmas errcodes =
  PF_ERROR_def PFEB_BADBLOCK_def PFEB_VERIFAIL_def PFWB_OOB_def PFWB_MISALIGNED_def
  PFWB_LEN_def PFWB_VERIFAIL_def PFWB_MAXRET_def

lemmas hw_ops =
  emit_def reg_read_def reg_write_def reg_or_def reg_and_def wdt_tcsr_def wdt_rstcsr_def
  waitn_def write8_def write32_def read32_def imask_savedisable_def imask_restore_def

section \<open>What each hardware primitive changes\<close>

lemma emit_fields [simp]:
  "regs (emit e s) = regs s" "pFLMCR (emit e s) = pFLMCR s" "pEBR (emit e s) = pEBR s"
  "reflash_enabled (emit e s) = reflash_enabled s" "trace (emit e s) = e # trace s"
  by (simp_all add: emit_def)

lemma reg_write_fields [simp]:
  "regs (reg_write r v s) = (regs s)(r := v)" "pFLMCR (reg_write r v s) = pFLMCR s"
  "pEBR (reg_write r v s) = pEBR s" "reflash_enabled (reg_write r v s) = reflash_enabled s"
  "trace (reg_write r v s) = RegWrite r v # trace s"
  by (simp_all add: reg_write_def)

lemma reg_or_fields [simp]:
  "regs (reg_or r v s) = (regs s)(r := regs s r OR v)" "pFLMCR (reg_or r v s) = pFLMCR s"
  "pEBR (reg_or r v s) = pEBR s" "reflash_enabled (reg_or r v s) = reflash_enabled s"
  "trace (reg_or r v s) = RegWrite r (regs s r OR v) # RegRead r # trace s"
  by (simp_all add: reg_or_def reg_read_def)

lemma reg_and_fields [simp]:
  "regs (reg_and r v s) = (regs s)(r := regs s r AND v)" "pFLMCR (reg_and r v s) = pFLMCR s"
  "pEBR (reg_and r v s) = pEBR s" "reflash_enabled (reg_and r v s) = reflash_enabled s"
  "trace (reg_and r v s) = RegWrite r (regs s r AND v) # RegRead r # trace s"
  by (simp_all add: reg_and_def reg_read_def)

lemma waitn_fields [simp]:
  "regs (waitn n s) = regs s" "pFLMCR (waitn n s) = pFLMCR s" "pEBR (waitn n s) = pEBR s"
  "reflash_enabled (waitn n s) = reflash_enabled s" "trace (waitn n s) = Waitn n # trace s"
  by (simp_all add: waitn_def)

lemma wdt_fields [simp]:
  "regs (wdt_tcsr w s) = regs s" "pFLMCR (wdt_tcsr w s) = pFLMCR s" "pEBR (wdt_tcsr w s) = pEBR s"
  "reflash_enabled (wdt_tcsr w s) = reflash_enabled s" "trace (wdt_tcsr w s) = WdtTCSR w # trace s"
  "regs (wdt_rstcsr w s) = regs s" "pFLMCR (wdt_rstcsr w s) = pFLMCR s"
  "pEBR (wdt_rstcsr w s) = pEBR s" "reflash_enabled (wdt_rstcsr w s) = reflash_enabled s"
  "trace (wdt_rstcsr w s) = WdtRSTCSR w # trace s"
  by (simp_all add: wdt_tcsr_def wdt_rstcsr_def)

lemma write_fields [simp]:
  "regs (write8 a b s) = regs s" "pFLMCR (write8 a b s) = pFLMCR s" "pEBR (write8 a b s) = pEBR s"
  "reflash_enabled (write8 a b s) = reflash_enabled s" "trace (write8 a b s) = Write8 a b # trace s"
  "regs (write32 a v s) = regs s" "pFLMCR (write32 a v s) = pFLMCR s" "pEBR (write32 a v s) = pEBR s"
  "reflash_enabled (write32 a v s) = reflash_enabled s"
  "trace (write32 a v s) = Write32 a v # trace s"
  by (simp_all add: write8_def write32_def)

lemma imask_fields [simp]:
  "regs (imask_savedisable s) = regs s" "pFLMCR (imask_savedisable s) = pFLMCR s"
  "pEBR (imask_savedisable s) = pEBR s" "reflash_enabled (imask_savedisable s) = reflash_enabled s"
  "trace (imask_savedisable s) = ImaskSaveDisable # trace s"
  "regs (imask_restore s) = regs s" "pFLMCR (imask_restore s) = pFLMCR s"
  "pEBR (imask_restore s) = pEBR s" "reflash_enabled (imask_restore s) = reflash_enabled s"
  "trace (imask_restore s) = ImaskRestore # trace s"
  by (simp_all add: imask_savedisable_def imask_restore_def)

lemma read32_fields [simp]:
  "fst (read32 rd a s) = rd (trace s) a"
  "regs (snd (read32 rd a s)) = regs s" "pFLMCR (snd (read32 rd a s)) = pFLMCR s"
  "pEBR (snd (read32 rd a s)) = pEBR s" "reflash_enabled (snd (read32 rd a s)) = reflash_enabled s"
  "trace (snd (read32 rd a s)) = Read32 a (rd (trace s) a) # trace s"
  by (simp_all add: read32_def Let_def)

lemma reg_read_fields [simp]:
  "fst (reg_read r s) = regs s r"
  "regs (snd (reg_read r s)) = regs s" "pFLMCR (snd (reg_read r s)) = pFLMCR s"
  "pEBR (snd (reg_read r s)) = pEBR s" "reflash_enabled (snd (reg_read r s)) = reflash_enabled s"
  "trace (snd (reg_read r s)) = RegRead r # trace s"
  by (simp_all add: reg_read_def)


section \<open>The erase path keeps the driver's globals\<close>

lemma same_globals_refl [simp]: "same_globals s s"
  by (simp add: same_globals_def)

lemma same_globals_trans: "same_globals s s1 \<Longrightarrow> same_globals s1 s2 \<Longrightarrow> same_globals s s2"
  by (simp add: same_globals_def)

lemma ferasevf_loop_unfold:
  "ferasevf_loop c rd cur end s =
     (if cur < end then
        (let r = read32 rd (of_nat cur) (waitn (TSEVR c) (write32 (of_nat cur) 0xFFFFFFFF
                   (waitn (TSEV c) (reg_or (pFLMCR s) FLMCR_EV s))))
         in if fst r \<noteq> 0xFFFFFFFF then (False, snd r)
            else ferasevf_loop c rd (cur + 4) end (snd r))
      else (True, s))"
  by (subst ferasevf_loop.simps) (simp add: Let_def split_beta)

lemma ferasevf_loop_globals:
  "same_globals s (snd (ferasevf_loop c rd cur end s))"
proof (induction "end - cur" arbitrary: cur s rule: less_induct)
  case less
  show ?case
  proof (cases "cur < end")
    case False
    then show ?thesis by (subst ferasevf_loop_unfold) simp
  next
    case True
    define s5 where "s5 = snd (read32 rd (of_nat cur) (waitn (TSEVR c) (write32 (of_nat cur) 0xFFFFFFFF
                   (waitn (TSEV c) (reg_or (pFLMCR s) FLMCR_EV s)))))"
    have a: "same_globals s s5" by (simp add: s5_def same_globals_def)
    from True have "end - (cur + 4) < end - cur" by simp
    then have b: "same_globals s5 (snd (ferasevf_loop c rd (cur + 4) end s5))" by (rule less)
    from True a same_globals_trans [OF a b] show ?thesis
      by (subst ferasevf_loop_unfold) (simp add: Let_def s5_def)
  qed
qed

lemma ferasevf_globals: "same_globals s (snd (ferasevf c rd blockno s))"
  using ferasevf_loop_globals [of s c rd "unat (fblocks c ! blockno)" "unat (fblocks c ! (blockno + 1))"]
  by (simp add: ferasevf_def split_beta same_globals_def)

lemma erasepulse_globals: "same_globals s (erasepulse c s)"
  by (simp add: erasepulse_def Let_def same_globals_def)

lemma ferase_7055_globals: "same_globals s (ferase_7055 blockno s)"
  using erasepulse_globals [of "reg_write (pEBR s) (ucast (bitsel_loop (unat ((of_nat blockno :: u32) AND 0x07)) 1)) s" SH7055_35]
  by (simp add: ferase_7055_def Let_def same_globals_def)

lemma ferase_7051_globals: "same_globals s (ferase_7051 blockno s)"
  by (simp add: ferase_7051_def Let_def same_globals_def erasepulse_def)

lemma sweclear_globals: "same_globals s (sweclear_7055 s)" "same_globals s (sweclear_7051 s)"
  by (simp_all add: sweclear_7055_def sweclear_7051_def same_globals_def)

lemma eb_loop_7055_globals: "same_globals s (snd (eb_loop_7055 rd blockno count s))"
proof (induction "MAX_ET SH7055_35 - count" arbitrary: count s rule: less_induct)
  case less
  show ?case
  proof (cases "count < MAX_ET SH7055_35")
    case False
    then show ?thesis by (subst eb_loop_7055.simps) (simp add: sweclear_globals)
  next
    case True
    define s1 where "s1 = snd (ferasevf SH7055_35 rd blockno (ferase_7055 blockno s))"
    have a: "same_globals s s1"
      unfolding s1_def by (rule same_globals_trans [OF ferase_7055_globals ferasevf_globals])
    from True have "MAX_ET SH7055_35 - (count + 1) < MAX_ET SH7055_35 - count" by simp
    then have b: "same_globals s1 (snd (eb_loop_7055 rd blockno (count + 1) s1))" by (rule less)
    have c: "same_globals s (sweclear_7055 s1)"
      by (rule same_globals_trans [OF a sweclear_globals(1)])
    from True c same_globals_trans [OF a b] show ?thesis
      by (subst eb_loop_7055.simps) (simp add: split_beta s1_def)
  qed
qed

lemma eb_loop_7051_globals: "same_globals s (snd (eb_loop_7051 rd blockno count s))"
proof (induction "MAX_ET SH7051 - count" arbitrary: count s rule: less_induct)
  case less
  show ?case
  proof (cases "count < MAX_ET SH7051")
    case False
    then show ?thesis by (subst eb_loop_7051.simps) (simp add: sweclear_globals)
  next
    case True
    define s1 where "s1 = snd (ferasevf SH7051 rd blockno (ferase_7051 blockno s))"
    have a: "same_globals s s1"
      unfolding s1_def by (rule same_globals_trans [OF ferase_7051_globals ferasevf_globals])
    from True have "MAX_ET SH7051 - (count + 1) < MAX_ET SH7051 - count" by simp
    then have b: "same_globals s1 (snd (eb_loop_7051 rd blockno (count + 1) s1))" by (rule less)
    have c: "same_globals s (sweclear_7051 s1)"
      by (rule same_globals_trans [OF a sweclear_globals(2)])
    from True c same_globals_trans [OF a b] show ?thesis
      by (subst eb_loop_7051.simps) (simp add: split_beta s1_def)
  qed
qed

lemma fwecheck_globals: "same_globals s (snd (fwecheck s))"
  by (simp add: fwecheck_def split_beta same_globals_def)

text \<open>
  The register set that \<^verbatim>\<open>platf_flash_eb\<close> leaves selected, for an unprotected session
  and a valid block.
\<close>

lemma platf_flash_eb_7055_select:
  assumes "reflash_enabled s" "blockno < BLK_MAX SH7055_35"
  shows "pFLMCR (snd (platf_flash_eb_7055 rd blockno s))
           = (if unat blockno > FLMCR1_MAXBLOCK then FLMCR1 else FLMCR2)"
    and "pEBR (snd (platf_flash_eb_7055 rd blockno s))
           = (if unat blockno > FLMCR1_MAXBLOCK then EBR1 else EBR2)"
proof -
  define s1 where "s1 = (if unat blockno > FLMCR1_MAXBLOCK
                   then s\<lparr>pFLMCR := FLMCR1, pEBR := EBR1\<rparr>
                   else s\<lparr>pFLMCR := FLMCR2, pEBR := EBR2\<rparr>)"
  define s2 where "s2 = snd (fwecheck s1)"
  define s5 where "s5 = wdt_rstcsr (WDT_RSTCSR_SETTING SH7055_35) (wdt_tcsr WDT_TCSR_STOP (sweset_7055 s2))"
  have a: "same_globals s1 s2" unfolding s2_def by (rule fwecheck_globals)
  have b: "same_globals s2 s5" by (simp add: s5_def same_globals_def sweset_7055_def)
  have c: "same_globals s5 (snd (eb_loop_7055 rd (unat blockno) 0 s5))" by (rule eb_loop_7055_globals)
  have r: "snd (platf_flash_eb_7055 rd blockno s) = (if fst (fwecheck s1) then snd (eb_loop_7055 rd (unat blockno) 0 s5) else s2)"
    using assms by (simp add: platf_flash_eb_7055_def Let_def split_beta s1_def s2_def s5_def flip: not_less)
  have "same_globals s1 (snd (platf_flash_eb_7055 rd blockno s))"
    unfolding r using a same_globals_trans [OF a same_globals_trans [OF b c]] by simp
  then show "pFLMCR (snd (platf_flash_eb_7055 rd blockno s))
           = (if unat blockno > FLMCR1_MAXBLOCK then FLMCR1 else FLMCR2)"
    and "pEBR (snd (platf_flash_eb_7055 rd blockno s))
           = (if unat blockno > FLMCR1_MAXBLOCK then EBR1 else EBR2)"
    by (simp_all add: same_globals_def s1_def)
qed

lemma platf_flash_eb_7051_select:
  assumes "reflash_enabled s" "blockno < BLK_MAX SH7051"
  shows "pFLMCR (snd (platf_flash_eb_7051 rd blockno s))
           = (if fblocks SH7051 ! unat blockno \<ge> FLMCR2_BEGIN then FLMCR2 else FLMCR1)"
proof -
  define s1 where "s1 = (if fblocks SH7051 ! unat blockno \<ge> FLMCR2_BEGIN
                   then s\<lparr>pFLMCR := FLMCR2\<rparr> else s\<lparr>pFLMCR := FLMCR1\<rparr>)"
  define s2 where "s2 = snd (fwecheck s1)"
  define s5 where "s5 = wdt_rstcsr (WDT_RSTCSR_SETTING SH7051) (wdt_tcsr WDT_TCSR_STOP (sweset_7051 s2))"
  have a: "same_globals s1 s2" unfolding s2_def by (rule fwecheck_globals)
  have b: "same_globals s2 s5" by (simp add: s5_def same_globals_def sweset_7051_def)
  have c: "same_globals s5 (snd (eb_loop_7051 rd (unat blockno) 0 s5))" by (rule eb_loop_7051_globals)
  have r: "snd (platf_flash_eb_7051 rd blockno s) = (if fst (fwecheck s1) then snd (eb_loop_7051 rd (unat blockno) 0 s5) else s2)"
    using assms by (simp add: platf_flash_eb_7051_def Let_def split_beta s1_def s2_def s5_def flip: not_less)
  have "same_globals s1 (snd (platf_flash_eb_7051 rd blockno s))"
    unfolding r using a same_globals_trans [OF a same_globals_trans [OF b c]] by simp
  then show ?thesis
    by (simp_all add: same_globals_def s1_def)
qed

section \<open>Word facts about the chunk masks\<close>

lemma and_chunk_mask_iff:
  fixes x :: u32
  shows "x AND 0x7F = 0 \<longleftrightarrow> unat x mod 128 = 0"
    and "x AND 0x1F = 0 \<longleftrightarrow> unat x mod 32 = 0"
proof -
  have m7: "(0x7F::u32) = mask 7" and m5: "(0x1F::u32) = mask 5"
    by (simp_all add: mask_eq_exp_minus_1)
  have "unat (x AND mask 7) = unat x mod 128" "unat (x AND mask 5) = unat x mod 32"
    by (simp_all flip: take_bit_eq_mask add: take_bit_eq_mod unat_mod)
  then show "x AND 0x7F = 0 \<longleftrightarrow> unat x mod 128 = 0" "x AND 0x1F = 0 \<longleftrightarrow> unat x mod 32 = 0"
    unfolding m7 m5 by (metis unat_eq_0)+
qed

lemma len_step128:
  fixes len :: u32
  assumes "len \<noteq> 0" "len AND 0x7F = 0"
  shows "unat (len - 128) < unat len" "(len - 128) AND 0x7F = 0"
proof -
  from assms have m: "unat len mod 128 = 0" and nz: "unat len \<noteq> 0"
    by (simp_all add: and_chunk_mask_iff unat_eq_0)
  then have ge: "128 \<le> unat len" by presburger
  then have "(128::u32) \<le> len" by (simp add: word_le_nat_alt)
  then have u: "unat (len - 128) = unat len - 128" by (simp add: unat_sub)
  from u ge show "unat (len - 128) < unat len" by simp
  from u ge m have "unat (len - 128) mod 128 = 0" by presburger
  then show "(len - 128) AND 0x7F = 0" by (simp add: and_chunk_mask_iff)
qed

section \<open>The locked session\<close>

text \<open>
  In the SH7055 file the test of \<^verbatim>\<open>reflash_enabled\<close> is inside the loop over the
  chunks: a locked session still walks the whole range, and comes out of it with
  nothing done, because the length is a multiple of 128.
\<close>

lemma wb_loop_7055_disabled:
  "\<not> reflash_enabled s \<Longrightarrow> len AND 0x7F = 0 \<Longrightarrow>
     wb_loop_7055 rd mem dest src len s = Some (0, s)"
proof (induction "unat len" arbitrary: len dest src rule: less_induct)
  case less
  show ?case
  proof (cases "len = 0")
    case True
    then show ?thesis by (subst wb_loop_7055.simps) simp
  next
    case False
    with less.prems have "unat (len - 128) < unat len" "(len - 128) AND 0x7F = 0"
      by (simp_all add: len_step128)
    then have "wb_loop_7055 rd mem (dest + 128) (src + 128) (len - 128) s = Some (0, s)"
      using less.hyps less.prems(1) by blast
    with False less.prems(1) show ?thesis by (subst wb_loop_7055.simps) simp
  qed
qed

text \<open>
  C9. When the session is not unprotected, \<^verbatim>\<open>platf_flash_eb\<close> with a valid block
  index returns 0 and leaves the hardware state, trace included, as it was.
  \<^verbatim>\<open>platf_flash_wb\<close> checks the bound of \<^verbatim>\<open>dest\<close> and the alignment of \<^verbatim>\<open>dest\<close>
  and \<^verbatim>\<open>len\<close> first, whatever the flag is, returning \<^verbatim>\<open>PFWB_OOB\<close>,
  \<^verbatim>\<open>PFWB_MISALIGNED\<close> or \<^verbatim>\<open>PFWB_LEN\<close>; past these checks a locked session returns 0,
  again with the hardware state as it was. Both files.
\<close>

theorem locked_session_is_noop:
  "(\<not> reflash_enabled s \<and> blockno < BLK_MAX SH7051 \<longrightarrow>
      platf_flash_eb_7051 rd blockno s = (0, s)) \<and>
   (\<not> reflash_enabled s \<and> blockno < BLK_MAX SH7055_35 \<longrightarrow>
      platf_flash_eb_7055 rd blockno s = (0, s)) \<and>
   (dest > FL_MAXROM SH7051 \<longrightarrow>
      platf_flash_wb_7051 rd mem dest src len s = Some (PFWB_OOB, s)) \<and>
   (dest \<le> FL_MAXROM SH7051 \<and> dest AND 0x1F \<noteq> 0 \<longrightarrow>
      platf_flash_wb_7051 rd mem dest src len s = Some (PFWB_MISALIGNED, s)) \<and>
   (dest \<le> FL_MAXROM SH7051 \<and> dest AND 0x1F = 0 \<and> len AND 0x1F \<noteq> 0 \<longrightarrow>
      platf_flash_wb_7051 rd mem dest src len s = Some (PFWB_LEN, s)) \<and>
   (\<not> reflash_enabled s \<and> dest \<le> FL_MAXROM SH7051 \<and> dest AND 0x1F = 0 \<and> len AND 0x1F = 0 \<longrightarrow>
      platf_flash_wb_7051 rd mem dest src len s = Some (0, s)) \<and>
   (dest > FL_MAXROM SH7055_35 \<longrightarrow>
      platf_flash_wb_7055 rd mem dest src len s = Some (PFWB_OOB, s)) \<and>
   (dest \<le> FL_MAXROM SH7055_35 \<and> dest AND 0x7F \<noteq> 0 \<longrightarrow>
      platf_flash_wb_7055 rd mem dest src len s = Some (PFWB_MISALIGNED, s)) \<and>
   (dest \<le> FL_MAXROM SH7055_35 \<and> dest AND 0x7F = 0 \<and> len AND 0x7F \<noteq> 0 \<longrightarrow>
      platf_flash_wb_7055 rd mem dest src len s = Some (PFWB_LEN, s)) \<and>
   (\<not> reflash_enabled s \<and> dest \<le> FL_MAXROM SH7055_35 \<and> dest AND 0x7F = 0 \<and> len AND 0x7F = 0 \<longrightarrow>
      platf_flash_wb_7055 rd mem dest src len s = Some (0, s))"
  by (intro conjI impI; (elim conjE)?)
     (simp_all add: platf_flash_eb_7051_def platf_flash_eb_7055_def platf_flash_wb_7051_def
      platf_flash_wb_7055_def wb_loop_7055_disabled flip: not_less)

theorem locked_session_is_noop_witness:
  "platf_flash_eb_7051 dev_zero 11 hw_reset = (0, hw_reset) \<and>
   platf_flash_eb_7055 dev_zero 15 hw_reset = (0, hw_reset) \<and>
   platf_flash_wb_7051 dev_zero ram_zero 0x40000 0xFFFF9000 0x20 hw_unlocked
     = Some (PFWB_OOB, hw_unlocked) \<and>
   platf_flash_wb_7051 dev_zero ram_zero 0x3FFE1 0xFFFF9000 0x20 hw_unlocked
     = Some (PFWB_MISALIGNED, hw_unlocked) \<and>
   platf_flash_wb_7051 dev_zero ram_zero 0x3FFE0 0xFFFF9000 0x21 hw_unlocked
     = Some (PFWB_LEN, hw_unlocked) \<and>
   platf_flash_wb_7051 dev_zero ram_zero 0x3FFE0 0xFFFF9000 0x20 hw_reset
     = Some (0, hw_reset) \<and>
   platf_flash_wb_7055 dev_zero ram_zero 0x80000 0xFFFF9000 0x80 hw_unlocked
     = Some (PFWB_OOB, hw_unlocked) \<and>
   platf_flash_wb_7055 dev_zero ram_zero 0x7FF81 0xFFFF9000 0x80 hw_unlocked
     = Some (PFWB_MISALIGNED, hw_unlocked) \<and>
   platf_flash_wb_7055 dev_zero ram_zero 0x7FF80 0xFFFF9000 0x81 hw_unlocked
     = Some (PFWB_LEN, hw_unlocked) \<and>
   platf_flash_wb_7055 dev_zero ram_zero 0x7FF80 0xFFFF9000 0x100 hw_reset
     = Some (0, hw_reset)"
proof -
  have locked: "\<not> reflash_enabled hw_reset" by (simp add: hw_reset_def)
  note t = locked_session_is_noop [where rd = dev_zero and mem = ram_zero and src = "0xFFFF9000"]
  show ?thesis
    using t [where s = hw_reset and blockno = 11 and dest = "0x3FFE0" and len = "0x20"]
      t [where s = hw_reset and blockno = 15 and dest = "0x7FF80" and len = "0x100"]
      t [where s = hw_unlocked and blockno = 0 and dest = "0x40000" and len = "0x20"]
      t [where s = hw_unlocked and blockno = 0 and dest = "0x3FFE1" and len = "0x20"]
      t [where s = hw_unlocked and blockno = 0 and dest = "0x3FFE0" and len = "0x21"]
      t [where s = hw_unlocked and blockno = 0 and dest = "0x80000" and len = "0x80"]
      t [where s = hw_unlocked and blockno = 0 and dest = "0x7FF81" and len = "0x80"]
      t [where s = hw_unlocked and blockno = 0 and dest = "0x7FF80" and len = "0x81"]
      locked
    by simp
qed

text \<open>
  C10. For a chunk-aligned \<^verbatim>\<open>dest\<close> within the ROM bound and \<^verbatim>\<open>len = 0\<close>,
  \<^verbatim>\<open>platf_flash_wb\<close> returns 0 and the hardware state, trace included, is the one it
  was given: no chunk is written and nothing is accessed, whether the session is
  unprotected or not. Both files.
\<close>

theorem empty_range_is_noop:
  "(dest \<le> FL_MAXROM SH7051 \<and> dest AND 0x1F = 0 \<longrightarrow>
      platf_flash_wb_7051 rd mem dest src 0 s = Some (0, s)) \<and>
   (dest \<le> FL_MAXROM SH7055_35 \<and> dest AND 0x7F = 0 \<longrightarrow>
      platf_flash_wb_7055 rd mem dest src 0 s = Some (0, s))"
  by (intro conjI impI; (elim conjE)?)
     (simp_all add: platf_flash_wb_7051_def platf_flash_wb_7055_def
      wb_loop_7051.simps [of _ _ _ _ 0] wb_loop_7055.simps [of _ _ _ _ 0] flip: not_less)

theorem empty_range_is_noop_witness:
  "platf_flash_wb_7051 dev_blank ram_ones 0x3FFE0 0xFFFF9000 0 hw_unlocked
     = Some (0, hw_unlocked) \<and>
   platf_flash_wb_7051 dev_blank ram_ones 0x3FFE0 0xFFFF9000 0 hw_reset
     = Some (0, hw_reset) \<and>
   platf_flash_wb_7055 dev_blank ram_ones 0x7FF80 0xFFFF9000 0 hw_unlocked
     = Some (0, hw_unlocked) \<and>
   platf_flash_wb_7055 dev_blank ram_ones 0x7FF80 0xFFFF9000 0 hw_reset
     = Some (0, hw_reset)"
proof -
  note t = empty_range_is_noop [where rd = dev_blank and mem = ram_ones and src = "0xFFFF9000"]
  show ?thesis
    using t [where s = hw_unlocked and dest = "0x3FFE0"] t [where s = hw_reset and dest = "0x3FFE0"]
      t [where s = hw_unlocked and dest = "0x7FF80"] t [where s = hw_reset and dest = "0x7FF80"]
    by simp
qed

section \<open>Erase on a device that never reads back blank\<close>

lemma ferasevf_loop_never_blank:
  assumes "\<And>tr a. rd tr a \<noteq> 0xFFFFFFFF" "cur < end"
  shows "\<not> fst (ferasevf_loop c rd cur end s)"
  using assms by (subst ferasevf_loop_unfold) (simp add: Let_def)

lemma ferasevf_never_blank:
  assumes "\<And>tr a. rd tr a \<noteq> 0xFFFFFFFF"
    and "unat (fblocks c ! blockno) < unat (fblocks c ! (blockno + 1))"
  shows "\<not> fst (ferasevf c rd blockno s)"
  using ferasevf_loop_never_blank [OF assms, where c = c and s = s] assms(1)
  by (simp add: ferasevf_def split_beta)

lemma eb_loop_7055_never_blank:
  assumes "\<And>tr a. rd tr a \<noteq> 0xFFFFFFFF"
    and "unat (fblocks SH7055_35 ! blockno) < unat (fblocks SH7055_35 ! (blockno + 1))"
  shows "fst (eb_loop_7055 rd blockno count s) = - 1"
proof (induction "MAX_ET SH7055_35 - count" arbitrary: count s rule: less_induct)
  case less
  show ?case
  proof (cases "count < MAX_ET SH7055_35")
    case False
    then show ?thesis by (subst eb_loop_7055.simps) simp
  next
    case True
    then have "MAX_ET SH7055_35 - (count + 1) < MAX_ET SH7055_35 - count" by simp
    from less [OF this] True ferasevf_never_blank [OF assms] show ?thesis
      by (subst eb_loop_7055.simps) (simp add: split_beta)
  qed
qed

lemma eb_loop_7051_never_blank:
  assumes "\<And>tr a. rd tr a \<noteq> 0xFFFFFFFF"
    and "unat (fblocks SH7051 ! blockno) < unat (fblocks SH7051 ! (blockno + 1))"
  shows "fst (eb_loop_7051 rd blockno count s) = PFEB_VERIFAIL"
proof (induction "MAX_ET SH7051 - count" arbitrary: count s rule: less_induct)
  case less
  show ?case
  proof (cases "count < MAX_ET SH7051")
    case False
    then show ?thesis by (subst eb_loop_7051.simps) simp
  next
    case True
    then have "MAX_ET SH7051 - (count + 1) < MAX_ET SH7051 - count" by simp
    from less [OF this] True ferasevf_never_blank [OF assms] show ?thesis
      by (subst eb_loop_7051.simps) (simp add: split_beta)
  qed
qed

text \<open>The block boundaries are strictly increasing, so no block is empty.\<close>

lemma fblocks_sorted: "sorted_wrt (<) (map unat (fblocks c))"
  by (cases c) simp_all

lemma fblocks_length: "length (fblocks c) = unat (BLK_MAX c) + 1"
  by (cases c) simp_all

lemma fblocks_increasing:
  assumes "b < unat (BLK_MAX c)"
  shows "unat (fblocks c ! b) < unat (fblocks c ! (b + 1))"
proof -
  have "map unat (fblocks c) ! b < map unat (fblocks c) ! (b + 1)"
    by (rule sorted_wrt_nth_less [OF fblocks_sorted]) (use assms in \<open>simp_all add: fblocks_length\<close>)
  with assms show ?thesis by (simp add: fblocks_length)
qed

lemma fwecheck_ok: "fst (fwecheck s) = fwe_ok s"
  by (simp add: fwecheck_def fwe_ok_def split_beta)

lemma platf_flash_eb_7051_never_blank:
  assumes "\<And>tr a. rd tr a \<noteq> 0xFFFFFFFF"
    and "reflash_enabled s" "blockno < BLK_MAX SH7051" "fwe_ok s"
  shows "fst (platf_flash_eb_7051 rd blockno s) = PFEB_VERIFAIL"
proof -
  define s1 where "s1 = (if fblocks SH7051 ! unat blockno \<ge> FLMCR2_BEGIN
                   then s\<lparr>pFLMCR := FLMCR2\<rparr> else s\<lparr>pFLMCR := FLMCR1\<rparr>)"
  from assms(3) have "unat blockno < unat (BLK_MAX SH7051)" by (simp only: word_less_nat_alt)
  then have inc: "unat (fblocks SH7051 ! unat blockno) < unat (fblocks SH7051 ! (unat blockno + 1))"
    by (rule fblocks_increasing)
  have ok: "fst (fwecheck s1)"
    using assms(4) unfolding fwecheck_ok by (simp add: fwe_ok_def s1_def)
  have "platf_flash_eb_7051 rd blockno s =
          eb_loop_7051 rd (unat blockno) 0
            (wdt_rstcsr (WDT_RSTCSR_SETTING SH7051) (wdt_tcsr WDT_TCSR_STOP (sweset_7051 (snd (fwecheck s1)))))"
    unfolding platf_flash_eb_7051_def Let_def s1_def [symmetric]
    using assms(2,3) ok by (simp only: split_beta not_le [symmetric] if_True if_False not_True_eq_False not_not)
  then show ?thesis by (simp only: eb_loop_7051_never_blank [OF assms(1) inc])
qed

lemma platf_flash_eb_7055_never_blank:
  assumes "\<And>tr a. rd tr a \<noteq> 0xFFFFFFFF"
    and "reflash_enabled s" "blockno < BLK_MAX SH7055_35" "fwe_ok s"
  shows "fst (platf_flash_eb_7055 rd blockno s) = - 1"
proof -
  define s1 where "s1 = (if unat blockno > FLMCR1_MAXBLOCK
                   then s\<lparr>pFLMCR := FLMCR1, pEBR := EBR1\<rparr>
                   else s\<lparr>pFLMCR := FLMCR2, pEBR := EBR2\<rparr>)"
  from assms(3) have "unat blockno < unat (BLK_MAX SH7055_35)" by (simp only: word_less_nat_alt)
  then have inc: "unat (fblocks SH7055_35 ! unat blockno) < unat (fblocks SH7055_35 ! (unat blockno + 1))"
    by (rule fblocks_increasing)
  have ok: "fst (fwecheck s1)"
    using assms(4) unfolding fwecheck_ok by (simp add: fwe_ok_def s1_def)
  have "platf_flash_eb_7055 rd blockno s =
          eb_loop_7055 rd (unat blockno) 0
            (wdt_rstcsr (WDT_RSTCSR_SETTING SH7055_35) (wdt_tcsr WDT_TCSR_STOP (sweset_7055 (snd (fwecheck s1)))))"
    unfolding platf_flash_eb_7055_def Let_def s1_def [symmetric]
    using assms(2,3) ok by (simp only: split_beta not_le [symmetric] if_True if_False not_True_eq_False not_not)
  then show ?thesis by (simp only: eb_loop_7055_never_blank [OF assms(1) inc])
qed

lemma hw_unlocked_facts:
  "reflash_enabled hw_unlocked" "fwe_ok hw_unlocked" "regs hw_unlocked = (\<lambda>r. 0)(FLMCR1 := 0x80)"
  "trace hw_unlocked = []"
  by (simp_all add: hw_unlocked_def hw_reset_def platf_flash_unprotect_def fwe_ok_def FLMCR_bits)

text \<open>
  C8. On the SH7055, erasing block 8 of a device whose words never read back blank
  fails every one of the \<^verbatim>\<open>MAX_ET\<close> verify passes, and \<^verbatim>\<open>platf_flash_eb\<close> then
  returns \<^verbatim>\<open>-1\<close>, that is \<open>0xFFFFFFFF\<close>, not \<^verbatim>\<open>PFEB_VERIFAIL\<close>. The SH7051 file
  returns \<^verbatim>\<open>PFEB_VERIFAIL\<close> on the same input.
\<close>

theorem eb_7055_exhausted_returns_minus_one:
  "fst (platf_flash_eb_7055 dev_zero 8 hw_unlocked) = 0xFFFFFFFF \<and>
   fst (platf_flash_eb_7055 dev_zero 8 hw_unlocked) \<noteq> PFEB_VERIFAIL \<and>
   fst (platf_flash_eb_7051 dev_zero 8 hw_unlocked) = PFEB_VERIFAIL"
  using platf_flash_eb_7055_never_blank [of dev_zero hw_unlocked 8]
    platf_flash_eb_7051_never_blank [of dev_zero hw_unlocked 8]
  by (simp add: hw_unlocked_facts dev_zero_def PFEB_VERIFAIL_def)

section \<open>What a write pulse does to the control register\<close>

lemma latch_fields [simp]:
  "regs (latch dest buf n s) = regs s" "pFLMCR (latch dest buf n s) = pFLMCR s"
  "pEBR (latch dest buf n s) = pEBR s" "reflash_enabled (latch dest buf n s) = reflash_enabled s"
  "trace (latch dest buf n s) = rev (map (\<lambda>cur. Write8 (dest + of_nat cur) (buf ! cur)) [0..<n]) @ trace s"
  unfolding latch_def by (induction n) simp_all

lemma lower_two_bits:
  fixes x :: u8
  shows "(((x OR b) OR c) AND NOT c) AND NOT b = x AND NOT (b OR c)"
  by (rule bit_word_eqI) (auto simp: bit_simps)

lemma c_lnot_PSU: "c_lnot FLMCR_PSU = 0"
  by (simp add: c_lnot_def FLMCR_PSU_def)

lemma writepulse_7051_regs:
  "regs (writepulse_7051 dest src tsp s)
     = (regs s)(pFLMCR s := regs s (pFLMCR s) AND NOT (FLMCR_PSU OR FLMCR_P))"
  by (simp add: writepulse_7051_def Let_def lower_two_bits c_lnot_PSU)

lemma writepulse_7055_regs:
  "regs (writepulse_7055 tsp s) = (regs s)(pFLMCR s := 0)"
  by (simp add: writepulse_7055_def Let_def lower_two_bits c_lnot_PSU)

section \<open>The SH7055 retry loop on a device that never trips the fault test\<close>

text \<open>
  The fault test of \<^verbatim>\<open>flash_write128\<close> is on the address \<^verbatim>\<open>src\<close>. Where no readback
  has a 0 under a 1 of that address, no pass leaves through \<^verbatim>\<open>badexit\<close>; and since
  \<^verbatim>\<open>n\<close> stays at its first value, the loop test never fails either.
\<close>

lemma verify_read_fst [simp]:
  "fst (verify_read c rd a s) = rd (Waitn (TSPVR c) # Write32 a (- 1) # trace s) a"
  by (simp add: verify_read_def)

lemma pv_word_7055_no_fault:
  assumes "\<forall>tr a. src AND NOT (rd tr a) = 0"
  shows "\<not> isl (pv_word_7055 rd mem dest src n cur st)"
  by (cases st) (simp add: pv_word_7055_def split_beta Let_def assms)

lemma pv_loop_7055_no_fault:
  assumes "\<forall>tr a. src AND NOT (rd tr a) = 0"
  shows "\<not> isl (pv_loop_7055 rd mem dest src n cur st)"
proof (induction "128 - cur" arbitrary: cur st rule: less_induct)
  case less
  show ?case
  proof (cases "cur < 128")
    case False
    then show ?thesis by (subst pv_loop_7055.simps) simp
  next
    case True
    from pv_word_7055_no_fault [OF assms, of mem dest n cur st]
    obtain st1 where w: "pv_word_7055 rd mem dest src n cur st = Inr st1"
      by (cases "pv_word_7055 rd mem dest src n cur st") simp_all
    from True have "128 - (cur + 4) < 128 - cur" by simp
    from less [OF this] True w show ?thesis
      by (subst pv_loop_7055.simps) simp
  qed
qed

lemma write_attempt_7055_unfold:
  "write_attempt_7055 rd mem dest src n (reprog, addit, s) =
     (case pv_loop_7055 rd mem dest src n 0 (False, reprog, addit, pv_entry_7055 dest n reprog s) of
        Inl bad \<Rightarrow> Inl bad
      | Inr (m, reprog1, addit1, s4) \<Rightarrow> Inr (m, reprog1, addit1, pv_exit_7055 dest n addit1 s4))"
  by (simp add: write_attempt_7055_def pv_entry_7055_def pv_exit_7055_def Let_def split: sum.splits)

lemma write_attempt_7055_no_fault:
  assumes "\<forall>tr a. src AND NOT (rd tr a) = 0"
  shows "\<not> isl (write_attempt_7055 rd mem dest src n st)"
proof -
  obtain reprog addit s where st: "st = (reprog, addit, s)" by (cases st)
  from pv_loop_7055_no_fault [OF assms]
  obtain st4 where "pv_loop_7055 rd mem dest src n 0 (False, reprog, addit, pv_entry_7055 dest n reprog s) = Inr st4"
    by (metis sum.collapse(2))
  then show ?thesis
    by (simp add: st write_attempt_7055_unfold split_beta)
qed

lemma write_loop_7055_diverges:
  assumes "n < MAX_WT SH7055_35" and "\<forall>tr a. src AND NOT (rd tr a) = 0"
  shows "write_loop_7055 rd mem dest src n st = None"
proof (rule ccontr)
  assume "write_loop_7055 rd mem dest src n st \<noteq> None"
  then obtain y where y: "write_loop_7055 rd mem dest src n st = Some y" by auto
  let ?P = "\<lambda>(rd :: device) (mem :: ram) (dest :: u32) (src :: u32) (n :: nat)
                (st :: bool \<times> u8 list \<times> u8 list \<times> hw) (y :: u32 \<times> hw).
              \<not> (n < MAX_WT SH7055_35 \<and> (\<forall>tr a. src AND NOT (rd tr a) = 0))"
  have step: "?P rd mem dest src n st y"
    if IH: "\<And>rd mem dest src n st y. f rd mem dest src n st = Some y \<Longrightarrow> ?P rd mem dest src n st y"
      and body: "(case st of (m, reprog, addit, s) \<Rightarrow>
          if n < MAX_WT SH7055_35 then
            (case write_attempt_7055 rd mem dest src n (reprog, addit, s) of
               Inl (rv, s1) \<Rightarrow> Some (rv, sweclear_7055 s1)
             | Inr st1 \<Rightarrow> f rd mem dest src n st1)
          else if \<not> m then Some (0, sweclear_7055 s)
          else Some (- 1, sweclear_7055 s)) = Some y"
    for f rd mem dest src n st y
  proof
    assume h: "n < MAX_WT SH7055_35 \<and> (\<forall>tr a. src AND NOT (rd tr a) = 0)"
    obtain m reprog addit s where st: "st = (m, reprog, addit, s)" by (cases st)
    from h have "\<not> isl (write_attempt_7055 rd mem dest src n (reprog, addit, s))"
      by (intro write_attempt_7055_no_fault) simp
    then obtain st1 where a: "write_attempt_7055 rd mem dest src n (reprog, addit, s) = Inr st1"
      by (cases "write_attempt_7055 rd mem dest src n (reprog, addit, s)") simp_all
    from body h have "f rd mem dest src n st1 = Some y" by (simp add: st a)
    from IH [OF this] h show False by simp
  qed
  have "?P rd mem dest src n st y"
    by (rule write_loop_7055.raw_induct [where P = ?P and rd = rd and mem = mem and dest = dest and src = src and n = n and st = st and y = y, OF step y])
  with assms show False by simp
qed


lemma flash_write128_diverges:
  assumes "fwe_ok s" and "\<forall>tr a. src AND NOT (rd tr a) = 0"
  shows "flash_write128 rd mem dest src s = None"
proof -
  have "fwe_ok (if dest < fblocks SH7055_35 ! (FLMCR1_MAXBLOCK + 1)
                then s\<lparr>pFLMCR := FLMCR1\<rparr> else s\<lparr>pFLMCR := FLMCR2\<rparr>)"
    using assms(1) by (simp add: fwe_ok_def)
  then show ?thesis
    unfolding flash_write128_def Let_def
    by (simp only: split_beta fwecheck_ok write_loop_7055_diverges [OF _ assms(2)] MAX_WT.simps) simp
qed

text \<open>
  C2. On the SH7055, writing a chunk of 0xFF bytes to erased flash never returns:
  \<^verbatim>\<open>flash_write128\<close> has no value, and neither has \<^verbatim>\<open>platf_flash_wb\<close> on that one
  chunk. The retry counter \<^verbatim>\<open>n\<close> is never incremented.
\<close>

theorem flash_write128_never_returns:
  "flash_write128 dev_blank ram_ones 0 0xFFFF9000 hw_unlocked = None \<and>
   platf_flash_wb_7055 dev_blank ram_ones 0 0xFFFF9000 0x80 hw_unlocked = None"
  by (simp add: platf_flash_wb_7055_def wb_loop_7055.simps [of _ _ _ _ "0x80"] hw_unlocked_facts
      flash_write128_diverges dev_blank_def)

section \<open>Byte buffers read and written as words\<close>

lemma be32_split:
  "be32 (ucast (drop_bit 24 v)) (ucast (drop_bit 16 v)) (ucast (drop_bit 8 v)) (ucast v) = v"
proof (rule bit_word_eqI)
  fix n assume n: "n < LENGTH(32)"
  then consider "n < 8" | "8 \<le> n" "n < 16" | "16 \<le> n" "n < 24" | "24 \<le> n" "n < 32"
    by fastforce
  then show "bit (be32 (ucast (drop_bit 24 v)) (ucast (drop_bit 16 v)) (ucast (drop_bit 8 v))
                 (ucast v)) n = bit v n"
    by cases (auto simp: be32_def bit_simps)
qed

lemma ld32_st32: "cur + 3 < length buf \<Longrightarrow> ld32 (st32 buf cur v) cur = v"
  by (simp add: ld32_def st32_def be32_split)

lemma length_st32 [simp]: "length (st32 buf cur v) = length buf"
  by (simp add: st32_def)

lemma be32_ones: "be32 0xFF 0xFF 0xFF 0xFF = 0xFFFFFFFF"
  by (simp add: be32_def)

lemma be32_zero: "be32 0 0 0 0 = 0"
  by (simp add: be32_def)

lemma memcpy_from_const:
  "memcpy_from ram_ones a n = replicate n 0xFF" "memcpy_from ram_zero a n = replicate n 0"
  by (simp_all add: memcpy_from_def ram_ones_def ram_zero_def map_replicate_const)

lemma ram32_const: "ram32 ram_ones a = 0xFFFFFFFF" "ram32 ram_zero a = 0"
  by (simp_all add: ram32_def ram_ones_def ram_zero_def be32_ones be32_zero)

lemma ld32_replicate:
  "cur + 3 < n \<Longrightarrow> ld32 (replicate n 0xFF) cur = 0xFFFFFFFF"
  "cur + 3 < n \<Longrightarrow> ld32 (replicate n 0) cur = 0"
  by (simp_all add: ld32_def be32_ones be32_zero)

lemma bytes_of_ones:
  "(ucast (drop_bit 24 (0xFFFFFFFF :: u32)) :: u8) = 0xFF"
  "(ucast (drop_bit 16 (0xFFFFFFFF :: u32)) :: u8) = 0xFF"
  "(ucast (drop_bit 8 (0xFFFFFFFF :: u32)) :: u8) = 0xFF"
  "(ucast (0xFFFFFFFF :: u32) :: u8) = 0xFF"
  by (rule bit_word_eqI; simp add: bit_simps; fail | simp)+

lemma replicate_update_same: "(replicate n x)[i := x] = replicate n x"
  by (cases "i < n") (auto simp: list_eq_iff_nth_eq nth_list_update)

lemma st32_replicate_ones:
  "st32 (replicate n 0xFF) cur 0xFFFFFFFF = replicate n 0xFF"
  unfolding st32_def bytes_of_ones by (simp only: replicate_update_same)

lemma dev_blank_eq: "dev_blank tr a = - 1"
  by (simp add: dev_blank_def)

lemma ones32: "(0xFFFFFFFF :: u32) = - 1"
  by simp

section \<open>One word of the program verify\<close>

lemma pv_word_7051_unfold:
  "pv_word_7051 rd dest src cur (m, reprog, s) =
     (if ld32 src cur AND NOT (fst (verify_read SH7051 rd (dest + of_nat cur) s)) \<noteq> 0
      then Inl (PFWB_VERIFAIL, snd (verify_read SH7051 rd (dest + of_nat cur) s))
      else Inr (m \<or> fst (verify_read SH7051 rd (dest + of_nat cur) s) \<noteq> ld32 src cur,
                st32 reprog cur (ld32 src cur OR NOT (fst (verify_read SH7051 rd (dest + of_nat cur) s))),
                snd (verify_read SH7051 rd (dest + of_nat cur) s)))"
  by (simp add: pv_word_7051_def split_beta Let_def del: verify_read_fst)

lemma pv_word_7055_unfold:
  "pv_word_7055 rd mem dest src n cur (m, reprog, addit, s) =
     (if src AND NOT (fst (verify_read SH7055_35 rd (dest + of_nat cur) s)) \<noteq> 0
      then Inl (- 1, snd (verify_read SH7055_35 rd (dest + of_nat cur) s))
      else Inr (m \<or> fst (verify_read SH7055_35 rd (dest + of_nat cur) s) \<noteq> ld32 reprog cur,
                st32 reprog cur (ram32 mem (src + of_nat cur)
                                   OR NOT (fst (verify_read SH7055_35 rd (dest + of_nat cur) s))),
                (if n \<le> 6
                 then st32 addit cur (fst (verify_read SH7055_35 rd (dest + of_nat cur) s) OR ld32 reprog cur)
                 else addit),
                snd (verify_read SH7055_35 rd (dest + of_nat cur) s)))"
  by (simp add: pv_word_7055_def split_beta Let_def del: verify_read_fst)

section \<open>The write paths, one step at a time\<close>

lemma write_loop_7051_unfold:
  "write_loop_7051 rd dest src n reprog s =
     (if n < MAX_WT SH7051 then
        (case pv_loop_7051 rd dest src 0 (False, reprog, pv_entry_7051 dest reprog s) of
           Inl (rv, s4) \<Rightarrow> (rv, sweclear_7051 s4)
         | Inr (m, reprog1, s4) \<Rightarrow>
             if \<not> m then (0, sweclear_7051 (pv_exit_7051 s4))
             else write_loop_7051 rd dest src (n + 1) reprog1 (pv_exit_7051 s4))
      else (PFWB_MAXRET, sweclear_7051 s))"
  by (subst write_loop_7051.simps)
     (simp add: pv_entry_7051_def pv_exit_7051_def Let_def split: sum.splits)

lemma fwe_ok_select [simp]: "fwe_ok (select_7051 dest s) = fwe_ok s" "fwe_ok (select_7055 dest s) = fwe_ok s"
  by (simp_all add: fwe_ok_def select_7051_def select_7055_def)

lemma flash_write32_unfold:
  "flash_write32 rd mem dest src_unaligned s =
     (if fwe_ok s
      then write_loop_7051 rd dest (memcpy_from mem src_unaligned 32) 1
             (memcpy_from mem src_unaligned 32)
             (armed_7051 (snd (fwecheck (select_7051 dest s))))
      else (PF_ERROR, snd (fwecheck (select_7051 dest s))))"
  unfolding flash_write32_def Let_def select_7051_def [symmetric] armed_7051_def [symmetric]
  by (simp add: split_beta fwecheck_ok)

lemma flash_write128_unfold:
  "flash_write128 rd mem dest src s =
     (if fwe_ok s
      then write_loop_7055 rd mem dest src 1
             (False, memcpy_from mem src 128, replicate 128 0,
              armed_7055 (snd (fwecheck (select_7055 dest s))))
      else Some (- 1, snd (fwecheck (select_7055 dest s))))"
  unfolding flash_write128_def Let_def select_7055_def [symmetric] armed_7055_def [symmetric]
  by (simp add: split_beta fwecheck_ok)

section \<open>Hard fault on the SH7051\<close>

lemma pv_loop_7051_Inl:
  assumes "pv_loop_7051 rd dest src cur st = Inl (rv, s4)"
  shows "rv = PFWB_VERIFAIL \<and>
         (\<exists>cur' m reprog s. cur' < 32 \<and>
            ld32 src cur' AND NOT (fst (verify_read SH7051 rd (dest + of_nat cur') s)) \<noteq> 0 \<and>
            s4 = snd (verify_read SH7051 rd (dest + of_nat cur') s))"
  using assms
proof (induction "32 - cur" arbitrary: cur st rule: less_induct)
  case less
  obtain m reprog s where st: "st = (m, reprog, s)" by (cases st)
  from less.prems have c: "cur < 32" by (subst (asm) pv_loop_7051.simps) (simp split: if_splits)
  show ?case
  proof (cases "ld32 src cur AND NOT (fst (verify_read SH7051 rd (dest + of_nat cur) s)) \<noteq> 0")
    case True
    with less.prems c have "rv = PFWB_VERIFAIL" "s4 = snd (verify_read SH7051 rd (dest + of_nat cur) s)"
      by (subst (asm) pv_loop_7051.simps, simp add: st pv_word_7051_unfold del: verify_read_fst)+
    with True c show ?thesis by blast
  next
    case False
    with less.prems c obtain st1 where "pv_loop_7051 rd dest src (cur + 4) st1 = Inl (rv, s4)"
      by (subst (asm) pv_loop_7051.simps) (simp add: st pv_word_7051_unfold del: verify_read_fst)
    moreover from c have "32 - (cur + 4) < 32 - cur" by simp
    ultimately show ?thesis by (rule less.hyps [rotated])
  qed
qed

lemma pv_loop_7051_first_word_fault:
  assumes "ld32 src 0 AND NOT (fst (verify_read SH7051 rd dest s)) \<noteq> 0"
  shows "pv_loop_7051 rd dest src 0 (m, reprog, s) = Inl (PFWB_VERIFAIL, snd (verify_read SH7051 rd dest s))"
  using assms by (subst pv_loop_7051.simps) (simp add: pv_word_7051_unfold del: verify_read_fst)

lemma write_loop_7051_hard_fault:
  assumes "n < MAX_WT SH7051"
    and "pv_loop_7051 rd dest src 0 (False, reprog, pv_entry_7051 dest reprog s) = Inl (rv, s4)"
  shows "write_loop_7051 rd dest src n reprog s = (PFWB_VERIFAIL, sweclear_7051 s4)"
  using assms pv_loop_7051_Inl [OF assms(2)] by (subst write_loop_7051_unfold) simp


section \<open>All-ones source on an erased device\<close>

lemma pv_loop_7051_blank:
  assumes "4 dvd cur"
  shows "\<exists>s'. pv_loop_7051 dev_blank dest (replicate 32 0xFF) cur (m, replicate 32 0xFF, s)
               = Inr (m, replicate 32 0xFF, s')"
  using assms
proof (induction "32 - cur" arbitrary: cur s rule: less_induct)
  case less
  show ?case
  proof (cases "cur < 32")
    case False
    then show ?thesis by (subst pv_loop_7051.simps) simp
  next
    case True
    with less.prems have c3: "cur + 3 < 32" by presburger
    from less.prems have d: "4 dvd cur + 4" by simp
    from True have "32 - (cur + 4) < 32 - cur" by simp
    from less.hyps [OF this d] True c3 show ?thesis
      by (subst pv_loop_7051.simps)
         (simp add: pv_word_7051_unfold dev_blank_eq ones32 ld32_replicate st32_replicate_ones [unfolded ones32])
  qed
qed

lemma pv_loop_7055_blank:
  assumes "4 dvd cur"
  shows "\<exists>addit' s'. pv_loop_7055 dev_blank ram_ones dest src n cur (m, replicate 128 0xFF, addit, s)
               = Inr (m, replicate 128 0xFF, addit', s')"
  using assms
proof (induction "128 - cur" arbitrary: cur s addit rule: less_induct)
  case less
  show ?case
  proof (cases "cur < 128")
    case False
    then show ?thesis by (subst pv_loop_7055.simps) simp
  next
    case True
    with less.prems have c3: "cur + 3 < 128" by presburger
    from less.prems have d: "4 dvd cur + 4" by simp
    from True have "128 - (cur + 4) < 128 - cur" by simp
    from less.hyps [OF this d] True c3 show ?thesis
      by (subst pv_loop_7055.simps)
         (simp add: pv_word_7055_unfold dev_blank_eq ones32 ld32_replicate ram32_const
            st32_replicate_ones [unfolded ones32])
  qed
qed

lemma write_attempt_7055_blank:
  "\<exists>addit' s'. write_attempt_7055 dev_blank ram_ones dest src n (replicate 128 0xFF, addit, s)
       = Inr (False, replicate 128 0xFF, addit', s')"
proof -
  from pv_loop_7055_blank [of 0 dest src n False addit "pv_entry_7055 dest n (replicate 128 0xFF) s"]
  obtain addit' s' where "pv_loop_7055 dev_blank ram_ones dest src n 0
       (False, replicate 128 0xFF, addit, pv_entry_7055 dest n (replicate 128 0xFF) s)
       = Inr (False, replicate 128 0xFF, addit', s')"
    by auto
  then show ?thesis by (simp add: write_attempt_7055_unfold)
qed

lemma flash_write32_blank:
  assumes "fwe_ok s"
  shows "fst (flash_write32 dev_blank ram_ones dest src s) = 0"
proof -
  let ?s = "armed_7051 (snd (fwecheck (select_7051 dest s)))"
  from pv_loop_7051_blank [of 0 dest False "pv_entry_7051 dest (replicate 32 0xFF) ?s"]
  obtain s' where "pv_loop_7051 dev_blank dest (replicate 32 0xFF) 0
       (False, replicate 32 0xFF, pv_entry_7051 dest (replicate 32 0xFF) ?s)
       = Inr (False, replicate 32 0xFF, s')"
    by auto
  with assms show ?thesis
    by (simp add: flash_write32_unfold memcpy_from_const write_loop_7051_unfold [of _ _ _ "Suc 0"])
qed

lemma flash_write32_first_word_fault:
  assumes "fwe_ok s" and "\<forall>tr a. ld32 (memcpy_from mem src 32) 0 AND NOT (rd tr a) \<noteq> 0"
  shows "fst (flash_write32 rd mem dest src s) = PFWB_VERIFAIL"
  using assms
  by (simp add: flash_write32_unfold write_loop_7051_unfold [of _ _ _ "Suc 0"] pv_loop_7051_first_word_fault)

lemma write_loop_7055_next:
  assumes "n < MAX_WT SH7055_35"
    and "write_attempt_7055 rd mem dest src n (reprog, addit, s) = Inr st1"
  shows "write_loop_7055 rd mem dest src n (m, reprog, addit, s) = write_loop_7055 rd mem dest src n st1"
  using assms by (subst write_loop_7055.simps) simp

text \<open>
  C1. On the SH7055 the fault test is \<^verbatim>\<open>src & ~verifdata\<close>, on the address of the
  source. With the source at \<open>0xFFFF9000\<close> holding 0xFF bytes and a device whose bit 0
  reads back 0, the source word wants a 1 where the readback has a 0, and the word is
  passed without a fault; \<^verbatim>\<open>flash_write128\<close> then goes on pulsing and never returns.
  \<^verbatim>\<open>flash_write32\<close> of the SH7051 file returns \<^verbatim>\<open>PFWB_VERIFAIL\<close> on the same input.
\<close>

theorem flash_write128_misses_hard_fault:
  "ram32 ram_ones 0xFFFF9000
     AND NOT (fst (verify_read SH7055_35 dev_bit0_low 0
        (pv_entry_7055 0 1 (memcpy_from ram_ones 0xFFFF9000 128)
           (armed_7055 (snd (fwecheck (select_7055 0 hw_unlocked))))))) = 1 \<and>
   \<not> isl (pv_word_7055 dev_bit0_low ram_ones 0 0xFFFF9000 1 0
            (False, memcpy_from ram_ones 0xFFFF9000 128, replicate 128 0,
             pv_entry_7055 0 1 (memcpy_from ram_ones 0xFFFF9000 128)
               (armed_7055 (snd (fwecheck (select_7055 0 hw_unlocked)))))) \<and>
   flash_write128 dev_bit0_low ram_ones 0 0xFFFF9000 hw_unlocked = None \<and>
   fst (flash_write32 dev_bit0_low ram_ones 0 0xFFFF9000 hw_unlocked) = PFWB_VERIFAIL"
proof (intro conjI)
  have nf: "\<forall>tr a. (0xFFFF9000 :: u32) AND NOT (dev_bit0_low tr a) = 0"
    by (simp add: dev_bit0_low_def)
  have f: "\<forall>tr a. ld32 (memcpy_from ram_ones 0xFFFF9000 32) 0 AND NOT (dev_bit0_low tr a) \<noteq> 0"
    by (simp add: dev_bit0_low_def memcpy_from_const ld32_replicate)
  show "ram32 ram_ones 0xFFFF9000
     AND NOT (fst (verify_read SH7055_35 dev_bit0_low 0
        (pv_entry_7055 0 1 (memcpy_from ram_ones 0xFFFF9000 128)
           (armed_7055 (snd (fwecheck (select_7055 0 hw_unlocked))))))) = 1"
    by (simp add: ram32_const dev_bit0_low_def)
  show "\<not> isl (pv_word_7055 dev_bit0_low ram_ones 0 0xFFFF9000 1 0
            (False, memcpy_from ram_ones 0xFFFF9000 128, replicate 128 0,
             pv_entry_7055 0 1 (memcpy_from ram_ones 0xFFFF9000 128)
               (armed_7055 (snd (fwecheck (select_7055 0 hw_unlocked))))))"
    by (rule pv_word_7055_no_fault [OF nf])
  show "flash_write128 dev_bit0_low ram_ones 0 0xFFFF9000 hw_unlocked = None"
    by (rule flash_write128_diverges [OF hw_unlocked_facts(2) nf])
  show "fst (flash_write32 dev_bit0_low ram_ones 0 0xFFFF9000 hw_unlocked) = PFWB_VERIFAIL"
    by (rule flash_write32_first_word_fault [OF hw_unlocked_facts(2) f])
qed

text \<open>
  C3. On the SH7055, the first pass writing 0xFF bytes to erased flash finds no
  mismatch (\<^verbatim>\<open>m\<close> is 0 and there is no fault), and the loop goes into another pass with
  what that pass left: the test of \<^verbatim>\<open>m\<close> is behind the loop. \<^verbatim>\<open>flash_write128\<close> does not
  return 0 there. \<^verbatim>\<open>flash_write32\<close> of the SH7051 file returns 0 on the same input.
\<close>

theorem flash_write128_ignores_clean_verify:
  "flash_write128 dev_blank ram_ones 0 0xFFFF9000 hw_unlocked
     = write_loop_7055 dev_blank ram_ones 0 0xFFFF9000 1
         (False, memcpy_from ram_ones 0xFFFF9000 128, replicate 128 0,
          armed_7055 (snd (fwecheck (select_7055 0 hw_unlocked)))) \<and>
   \<not> isl (write_attempt_7055 dev_blank ram_ones 0 0xFFFF9000 1
            (memcpy_from ram_ones 0xFFFF9000 128, replicate 128 0,
             armed_7055 (snd (fwecheck (select_7055 0 hw_unlocked))))) \<and>
   \<not> fst (projr (write_attempt_7055 dev_blank ram_ones 0 0xFFFF9000 1
            (memcpy_from ram_ones 0xFFFF9000 128, replicate 128 0,
             armed_7055 (snd (fwecheck (select_7055 0 hw_unlocked)))))) \<and>
   write_loop_7055 dev_blank ram_ones 0 0xFFFF9000 1
       (False, memcpy_from ram_ones 0xFFFF9000 128, replicate 128 0,
        armed_7055 (snd (fwecheck (select_7055 0 hw_unlocked))))
     = write_loop_7055 dev_blank ram_ones 0 0xFFFF9000 1
         (projr (write_attempt_7055 dev_blank ram_ones 0 0xFFFF9000 1
            (memcpy_from ram_ones 0xFFFF9000 128, replicate 128 0,
             armed_7055 (snd (fwecheck (select_7055 0 hw_unlocked)))))) \<and>
   map_option fst (flash_write128 dev_blank ram_ones 0 0xFFFF9000 hw_unlocked) \<noteq> Some 0 \<and>
   fst (flash_write32 dev_blank ram_ones 0 0xFFFF9000 hw_unlocked) = 0"
proof -
  let ?S = "armed_7055 (snd (fwecheck (select_7055 0 hw_unlocked)))"
  have nf: "\<forall>tr a. (0xFFFF9000 :: u32) AND NOT (dev_blank tr a) = 0"
    by (simp add: dev_blank_eq)
  from write_attempt_7055_blank [of 0 "0xFFFF9000" 1 "replicate 128 0" ?S]
  obtain addit' s' where "write_attempt_7055 dev_blank ram_ones 0 0xFFFF9000 1
       (replicate 128 0xFF, replicate 128 0, ?S) = Inr (False, replicate 128 0xFF, addit', s')"
    by auto
  then have a: "write_attempt_7055 dev_blank ram_ones 0 0xFFFF9000 1
       (memcpy_from ram_ones 0xFFFF9000 128, replicate 128 0, ?S)
         = Inr (False, replicate 128 0xFF, addit', s')"
    by (simp only: memcpy_from_const)
  have n: "1 < MAX_WT SH7055_35" by simp
  have d: "flash_write128 dev_blank ram_ones 0 0xFFFF9000 hw_unlocked = None"
    by (rule flash_write128_diverges [OF hw_unlocked_facts(2) nf])
  have u: "flash_write128 dev_blank ram_ones 0 0xFFFF9000 hw_unlocked
     = write_loop_7055 dev_blank ram_ones 0 0xFFFF9000 1
         (False, memcpy_from ram_ones 0xFFFF9000 128, replicate 128 0, ?S)"
    by (simp add: flash_write128_unfold hw_unlocked_facts)
  show ?thesis
    unfolding a write_loop_7055_next [OF n a] u [symmetric] d
    using flash_write32_blank [OF hw_unlocked_facts(2), of 0 "0xFFFF9000"]
      write_loop_7055_next [OF n a, of False] u d
    by simp
qed

section \<open>What the SH7051 write path leaves alone\<close>

text \<open>
  Every step of \<^verbatim>\<open>flash_write32\<close> after the choice of \<^verbatim>\<open>pFLMCR\<close> keeps the driver's
  globals, only adds to the trace, and leaves the FWE and FLER bits as they were: the
  masks it sets and clears are all below bit 7.
\<close>

lemma later_refl [simp]: "later s s"
  by (simp add: later_def)

lemma later_trans: "later s s1 \<Longrightarrow> later s1 s2 \<Longrightarrow> later s s2"
  by (auto simp: later_def same_globals_def intro: suffix_order.trans)

lemma later_fwe_ok: "later s s' \<Longrightarrow> fwe_ok s' = fwe_ok s"
  by (simp add: later_def fwe_ok_def)

lemma later_trace: "later s s' \<Longrightarrow> set (trace s) \<subseteq> set (trace s')"
  by (simp add: later_def set_mono_suffix)

lemma later_globals: "later s s' \<Longrightarrow> same_globals s s'"
  by (simp add: later_def)

lemma keep_bit7:
  fixes x :: u8
  shows "v AND 0x80 = 0 \<Longrightarrow> (x OR v) AND 0x80 = x AND 0x80"
    and "v AND 0x80 = 0 \<Longrightarrow> (x AND NOT v) AND 0x80 = x AND 0x80"
  by (auto simp: bit_eq_iff bit_simps)

lemma suffix_grow [simp]: "suffix xs (ys @ xs)" "suffix xs ys \<Longrightarrow> suffix xs (y # ys)"
  by (simp_all add: suffix_appendI suffix_ConsI)

lemma later_emit [simp]: "later s (emit e s)"
  by (simp add: later_def same_globals_def)

lemma later_simple [simp]:
  "later s (waitn n s)" "later s (wdt_tcsr w s)" "later s (wdt_rstcsr w s)"
  "later s (write8 a b s)" "later s (write32 a v s)" "later s (imask_savedisable s)"
  "later s (imask_restore s)" "later s (snd (read32 rd a s))" "later s (snd (reg_read r s))"
  "later s (latch dest buf n s)"
  by (simp_all add: later_def same_globals_def)

lemma low_bits:
  "FLMCR_SWE AND 0x80 = 0" "FLMCR_ESU AND 0x80 = 0" "FLMCR_PSU AND 0x80 = 0" "FLMCR_EV AND 0x80 = 0"
  "FLMCR_PV AND 0x80 = 0" "FLMCR_E AND 0x80 = 0" "FLMCR_P AND 0x80 = 0"
  by (simp_all add: FLMCR_bits)

lemma later_reg_or: "v AND 0x80 = 0 \<Longrightarrow> later s (reg_or r v s)"
  by (simp add: later_def same_globals_def keep_bit7 FLMCR_bits)

lemma later_reg_clear: "v AND 0x80 = 0 \<Longrightarrow> later s (reg_and r (NOT v) s)"
  by (simp add: later_def same_globals_def keep_bit7 FLMCR_bits)

lemmas later_flmcr [simp] =
  low_bits [THEN later_reg_or] low_bits [THEN later_reg_clear]

lemma later_then: "later s1 s2 \<Longrightarrow> later s s1 \<Longrightarrow> later s s2"
  by (rule later_trans)

lemma later_writepulse_7051: "later s (writepulse_7051 dest src tsp s)"
  unfolding writepulse_7051_def Let_def
  by (rule later_then [OF later_simple(7)] later_then [OF later_simple(1)] later_then [OF later_simple(2)]
      later_then [OF later_simple(6)] later_then [OF later_flmcr(3)] later_then [OF later_flmcr(7)]
      later_then [OF later_flmcr(10)] later_then [OF later_flmcr(14)] later_simple(10))+

lemma later_writepulse_7051_latch:
  "later (latch dest src 32 s) (writepulse_7051 dest src tsp s)"
  unfolding writepulse_7051_def Let_def
  by (rule later_then [OF later_simple(7)] later_then [OF later_simple(1)] later_then [OF later_simple(2)]
      later_then [OF later_simple(6)] later_then [OF later_flmcr(3)] later_then [OF later_flmcr(7)]
      later_then [OF later_flmcr(10)] later_then [OF later_flmcr(14)] later_refl)+

lemma later_sweset_7051: "later s (sweset_7051 s)"
  unfolding sweset_7051_def
  by (rule later_then [OF later_simple(1)] later_flmcr)+

lemma later_sweclear_7051: "later s (sweclear_7051 s)"
  unfolding sweclear_7051_def
  by (rule later_then [OF later_simple(1)] later_flmcr)+

lemma later_armed_7051: "later s (armed_7051 s)"
  unfolding armed_7051_def
  by (rule later_then [OF later_simple(3)] later_then [OF later_simple(2)] later_sweset_7051)+

lemma later_pv_entry_7051: "later s (pv_entry_7051 dest reprog s)"
  unfolding pv_entry_7051_def Let_def
  by (rule later_then [OF later_simple(1)] later_then [OF later_flmcr(5)] later_writepulse_7051)+

lemma later_pv_entry_7051_latch:
  "later (latch dest reprog 32 s) (pv_entry_7051 dest reprog s)"
  unfolding pv_entry_7051_def Let_def
  by (rule later_then [OF later_simple(1)] later_then [OF later_flmcr(5)] later_writepulse_7051_latch)+

lemma later_pv_exit_7051: "later s (pv_exit_7051 s)"
  unfolding pv_exit_7051_def
  by (rule later_then [OF later_simple(1)] later_flmcr)+

lemma later_verify_read: "later s (snd (verify_read c rd a s))"
  unfolding verify_read_def
  by (rule later_then [OF later_simple(8)] later_then [OF later_simple(1)] later_simple)+

lemma later_fwecheck: "later s (snd (fwecheck s))"
  by (simp add: fwecheck_def split_beta later_def same_globals_def)


lemma out_hw_7051_simps [simp]:
  "out_hw_7051 (Inl (rv, s)) = s" "out_hw_7051 (Inr (m, reprog, s)) = s"
  by (simp_all add: out_hw_7051_def)

lemma later_pv_word_7051: "later s (out_hw_7051 (pv_word_7051 rd dest src cur (m, reprog, s)))"
  by (simp add: pv_word_7051_unfold later_verify_read del: verify_read_fst)

lemma later_pv_loop_7051: "later s (out_hw_7051 (pv_loop_7051 rd dest src cur (m, reprog, s)))"
proof (induction "32 - cur" arbitrary: cur m reprog s rule: less_induct)
  case less
  show ?case
  proof (cases "cur < 32")
    case False
    then show ?thesis by (subst pv_loop_7051.simps) simp
  next
    case True
    note w = later_pv_word_7051 [of s rd dest src cur m reprog]
    show ?thesis
    proof (cases "pv_word_7051 rd dest src cur (m, reprog, s)")
      case (Inl bad)
      with True w show ?thesis by (subst pv_loop_7051.simps) simp
    next
      case (Inr st1)
      obtain m1 reprog1 s1 where st1: "st1 = (m1, reprog1, s1)" by (cases st1)
      from True have "32 - (cur + 4) < 32 - cur" by simp
      from less [OF this] have "later s1 (out_hw_7051 (pv_loop_7051 rd dest src (cur + 4) (m1, reprog1, s1)))" .
      moreover from w Inr st1 have "later s s1" by simp
      ultimately have "later s (out_hw_7051 (pv_loop_7051 rd dest src (cur + 4) (m1, reprog1, s1)))"
        by (rule later_then)
      with True Inr st1 show ?thesis by (subst pv_loop_7051.simps) simp
    qed
  qed
qed

lemma later_write_loop_7051_both:
  "later s (snd (write_loop_7051 rd dest src n reprog s)) \<and>
   (n < MAX_WT SH7051 \<longrightarrow>
      later (pv_entry_7051 dest reprog s) (snd (write_loop_7051 rd dest src n reprog s)))"
proof (induction "MAX_WT SH7051 - n" arbitrary: n reprog s rule: less_induct)
  case less
  let ?e = "pv_entry_7051 dest reprog s"
  have main: "later ?e (snd (write_loop_7051 rd dest src n reprog s))" if n: "n < MAX_WT SH7051"
  proof -
    note p = later_pv_loop_7051 [of ?e rd dest src 0 False reprog]
    show ?thesis
    proof (cases "pv_loop_7051 rd dest src 0 (False, reprog, ?e)")
      case (Inl bad)
      obtain rv s4 where bad: "bad = (rv, s4)" by (cases bad)
      from p Inl bad have "later ?e s4" by simp
      then have "later ?e (sweclear_7051 s4)" by (rule later_then [OF later_sweclear_7051])
      with n Inl bad show ?thesis by (subst write_loop_7051_unfold) simp
    next
      case (Inr st1)
      obtain m reprog1 s4 where st1: "st1 = (m, reprog1, s4)" by (cases st1)
      from p Inr st1 have "later ?e s4" by simp
      then have x: "later ?e (pv_exit_7051 s4)" by (rule later_then [OF later_pv_exit_7051])
      then have a: "later ?e (sweclear_7051 (pv_exit_7051 s4))" by (rule later_then [OF later_sweclear_7051])
      from n have "MAX_WT SH7051 - (n + 1) < MAX_WT SH7051 - n" by simp
      from less [OF this]
      have "later (pv_exit_7051 s4) (snd (write_loop_7051 rd dest src (n + 1) reprog1 (pv_exit_7051 s4)))"
        by blast
      then have b: "later ?e (snd (write_loop_7051 rd dest src (n + 1) reprog1 (pv_exit_7051 s4)))"
        using x by (rule later_then)
      from n Inr st1 a b show ?thesis by (subst write_loop_7051_unfold) simp
    qed
  qed
  have "later s (snd (write_loop_7051 rd dest src n reprog s))"
  proof (cases "n < MAX_WT SH7051")
    case True
    show ?thesis by (rule later_then [OF main [OF True] later_pv_entry_7051])
  next
    case False
    then show ?thesis by (subst write_loop_7051_unfold) (simp add: later_sweclear_7051)
  qed
  with main show ?case by blast
qed

lemmas later_write_loop_7051 =
  later_write_loop_7051_both [THEN conjunct1] later_write_loop_7051_both [THEN conjunct2, rule_format]

lemma later_flash_write32:
  "later (select_7051 dest s) (snd (flash_write32 rd mem dest src s))"
  by (simp add: flash_write32_unfold later_fwecheck
      later_then [OF later_write_loop_7051(1) later_then [OF later_armed_7051 later_fwecheck]])

lemma flash_write32_fwe_ok: "fwe_ok (snd (flash_write32 rd mem dest src s)) = fwe_ok s"
  using later_fwe_ok [OF later_flash_write32] by simp

lemma flash_write32_enabled:
  "reflash_enabled (snd (flash_write32 rd mem dest src s)) = reflash_enabled s"
  using later_globals [OF later_flash_write32, of dest s rd mem src]
  by (simp add: same_globals_def select_7051_def)

lemma flash_write32_latches:
  assumes "fwe_ok s"
  shows "Write8 dest (mem src) \<in> set (trace (snd (flash_write32 rd mem dest src s)))"
proof -
  let ?buf = "memcpy_from mem src 32"
  let ?s = "armed_7051 (snd (fwecheck (select_7051 dest s)))"
  have "Write8 dest (mem src) \<in> set (trace (latch dest ?buf 32 ?s))"
    by (simp add: memcpy_from_def) (rule disjI1, rule image_eqI [where x = 0], simp_all)
  also have "\<dots> \<subseteq> set (trace (pv_entry_7051 dest ?buf ?s))"
    by (rule later_trace [OF later_pv_entry_7051_latch])
  also have "\<dots> \<subseteq> set (trace (snd (write_loop_7051 rd dest ?buf 1 ?buf ?s)))"
    by (rule later_trace [OF later_write_loop_7051(2)]) simp
  finally show ?thesis using assms by (simp add: flash_write32_unfold)
qed


section \<open>The bound check of the write entry point\<close>

text \<open>
  C5, as amended. For every \<^verbatim>\<open>dest\<close> above \<^verbatim>\<open>FL_MAXROM\<close>, whatever \<^verbatim>\<open>len\<close> is,
  \<^verbatim>\<open>platf_flash_wb\<close> returns \<^verbatim>\<open>PFWB_OOB\<close> and the hardware state, trace included, is
  the one it was given. Both files.
\<close>

theorem wb_dest_out_of_bounds:
  "(dest > FL_MAXROM SH7051 \<longrightarrow>
      platf_flash_wb_7051 rd mem dest src len s = Some (PFWB_OOB, s)) \<and>
   (dest > FL_MAXROM SH7055_35 \<longrightarrow>
      platf_flash_wb_7055 rd mem dest src len s = Some (PFWB_OOB, s))"
  by (simp add: platf_flash_wb_7051_def platf_flash_wb_7055_def)

theorem wb_dest_out_of_bounds_witness:
  "(0x40000 :: u32) > FL_MAXROM SH7051 \<and>
   platf_flash_wb_7051 dev_blank ram_ones 0x40000 0xFFFF9000 0x20 hw_unlocked
     = Some (PFWB_OOB, hw_unlocked) \<and>
   (0x80000 :: u32) > FL_MAXROM SH7055_35 \<and>
   platf_flash_wb_7055 dev_blank ram_ones 0x80000 0xFFFF9000 0x80 hw_unlocked
     = Some (PFWB_OOB, hw_unlocked)"
  using wb_dest_out_of_bounds [where dest = "0x40000" and rd = dev_blank and mem = ram_ones
      and src = "0xFFFF9000" and len = "0x20" and s = hw_unlocked]
    wb_dest_out_of_bounds [where dest = "0x80000" and rd = dev_blank and mem = ram_ones
      and src = "0xFFFF9000" and len = "0x80" and s = hw_unlocked]
  by simp

text \<open>
  C5, as stated, is about \<^verbatim>\<open>dest + len\<close>. On the SH7051, \<^verbatim>\<open>dest = 0x3FFE0\<close> with
  \<^verbatim>\<open>len = 0x40\<close> ends beyond \<^verbatim>\<open>FL_MAXROM\<close>; on an erased device with a source of 0xFF
  bytes the call returns 0, and the chunk at \<open>0x40000\<close>, beyond the limit, has been
  latched for programming.
\<close>

theorem wb_7051_range_end_not_checked:
  "unat (0x3FFE0 :: u32) + unat (0x40 :: u32) > unat (FL_MAXROM SH7051) \<and>
   (0x40000 :: u32) > FL_MAXROM SH7051 \<and>
   map_option fst (platf_flash_wb_7051 dev_blank ram_ones 0x3FFE0 0xFFFF9000 0x40 hw_unlocked)
     = Some 0 \<and>
   Write8 0x40000 0xFF \<in> set (trace (snd (the
      (platf_flash_wb_7051 dev_blank ram_ones 0x3FFE0 0xFFFF9000 0x40 hw_unlocked))))"
proof -
  define s1 where "s1 = snd (flash_write32 dev_blank ram_ones 0x3FFE0 0xFFFF9000 hw_unlocked)"
  define s2 where "s2 = snd (flash_write32 dev_blank ram_ones 0x40000 0xFFFF9020 s1)"
  have f1: "flash_write32 dev_blank ram_ones 0x3FFE0 0xFFFF9000 hw_unlocked = (0, s1)"
    by (simp add: prod_eq_iff flash_write32_blank s1_def hw_unlocked_facts)
  have ok1: "fwe_ok s1"
    by (simp add: s1_def flash_write32_fwe_ok hw_unlocked_facts)
  have f2: "flash_write32 dev_blank ram_ones 0x40000 0xFFFF9020 s1 = (0, s2)"
    by (simp add: prod_eq_iff flash_write32_blank s2_def ok1)
  have w: "Write8 0x40000 0xFF \<in> set (trace s2)"
    using flash_write32_latches [OF ok1, of "0x40000" ram_ones "0xFFFF9020" dev_blank]
    by (simp add: s2_def ram_ones_def)
  have l3: "wb_loop_7051 dev_blank ram_ones 0x40020 0xFFFF9040 0 s2 = Some (0, s2)"
    by (subst wb_loop_7051.simps) simp
  have l2: "wb_loop_7051 dev_blank ram_ones 0x40000 0xFFFF9020 0x20 s1 = Some (0, s2)"
    by (subst wb_loop_7051.simps) (simp add: f2 l3)
  have l1: "wb_loop_7051 dev_blank ram_ones 0x3FFE0 0xFFFF9000 0x40 hw_unlocked = Some (0, s2)"
    by (subst wb_loop_7051.simps) (simp add: f1 l2)
  have r: "platf_flash_wb_7051 dev_blank ram_ones 0x3FFE0 0xFFFF9000 0x40 hw_unlocked = Some (0, s2)"
    by (simp add: platf_flash_wb_7051_def hw_unlocked_facts l1)
  show ?thesis unfolding r using w by simp
qed


section \<open>SH7051: a chunk that never takes\<close>

text \<open>
  On a device whose cells stay erased, a source with a 0 bit in its first word
  mismatches in every pass without a fault; \<^verbatim>\<open>flash_write32\<close> runs its passes for
  \<^verbatim>\<open>n\<close> from 1 while \<^verbatim>\<open>n < MAX_WT\<close> and returns \<^verbatim>\<open>PFWB_MAXRET\<close>.
\<close>

lemma pv_word_7051_stuck:
  assumes "\<forall>tr a. rd tr a = - 1"
  shows "pv_word_7051 rd dest src cur (m, reprog, s)
           = Inr (m \<or> ld32 src cur \<noteq> - 1, st32 reprog cur (ld32 src cur),
                  snd (verify_read SH7051 rd (dest + of_nat cur) s))"
proof -
  have "fst (verify_read SH7051 rd (dest + of_nat cur) s) = - 1"
    using assms by simp
  then show ?thesis
    by (auto simp add: pv_word_7051_unfold simp del: verify_read_fst)
qed

lemma pv_loop_7051_stuck:
  assumes "\<forall>tr a. rd tr a = - 1"
  shows "\<exists>reprog' s'. pv_loop_7051 rd dest src cur (True, reprog, s) = Inr (True, reprog', s')"
proof (induction "32 - cur" arbitrary: cur reprog s rule: less_induct)
  case less
  show ?case
  proof (cases "cur < 32")
    case False
    then show ?thesis by (subst pv_loop_7051.simps) simp
  next
    case True
    then have "32 - (cur + 4) < 32 - cur" by simp
    from less [OF this] True show ?thesis
      by (subst pv_loop_7051.simps) (simp add: pv_word_7051_stuck [OF assms])
  qed
qed

lemma pv_loop_7051_stuck_first:
  assumes "\<forall>tr a. rd tr a = - 1" and "ld32 src 0 \<noteq> - 1"
  shows "\<exists>reprog' s'. pv_loop_7051 rd dest src 0 (False, reprog, s) = Inr (True, reprog', s')"
  using assms(2) pv_loop_7051_stuck [OF assms(1), of dest src 4]
  by (subst pv_loop_7051.simps) (simp add: pv_word_7051_stuck [OF assms(1)])

lemma write_loop_7051_exhausted:
  assumes "\<forall>tr a. rd tr a = - 1" and "ld32 src 0 \<noteq> - 1"
  shows "fst (write_loop_7051 rd dest src n reprog s) = PFWB_MAXRET"
proof (induction "MAX_WT SH7051 - n" arbitrary: n reprog s rule: less_induct)
  case less
  show ?case
  proof (cases "n < MAX_WT SH7051")
    case False
    then show ?thesis by (subst write_loop_7051_unfold) simp
  next
    case True
    from pv_loop_7051_stuck_first [OF assms]
    obtain reprog' s' where p: "pv_loop_7051 rd dest src 0 (False, reprog, pv_entry_7051 dest reprog s)
        = Inr (True, reprog', s')"
      by blast
    from True have "MAX_WT SH7051 - (n + 1) < MAX_WT SH7051 - n" by simp
    from less [OF this] True p show ?thesis
      by (subst write_loop_7051_unfold) simp
  qed
qed

lemma flash_write32_exhausted:
  assumes "fwe_ok s" and "\<forall>tr a. rd tr a = - 1" and "ld32 (memcpy_from mem src 32) 0 \<noteq> - 1"
  shows "fst (flash_write32 rd mem dest src s) = PFWB_MAXRET"
  using assms(1) by (simp add: flash_write32_unfold write_loop_7051_exhausted [OF assms(2,3)])

lemma flash_write32_exhausted_example:
  "fst (flash_write32 dev_blank ram_zero 0 0xFFFF9000 hw_unlocked) = PFWB_MAXRET"
  by (rule flash_write32_exhausted)
     (simp_all add: hw_unlocked_facts dev_blank_eq memcpy_from_const ld32_replicate)

section \<open>SH7051: a clean pass ends the write\<close>

lemma write_loop_7051_clean_pass:
  assumes "n < MAX_WT SH7051"
    and "pv_loop_7051 rd dest src 0 (False, reprog, pv_entry_7051 dest reprog s) = Inr (False, reprog1, s4)"
  shows "write_loop_7051 rd dest src n reprog s = (0, sweclear_7051 (pv_exit_7051 s4))"
  using assms by (subst write_loop_7051_unfold) simp

section \<open>SH7055: the address test firing on good data\<close>

lemma pv_loop_7055_first_word_fault:
  assumes "\<forall>tr a. src AND NOT (rd tr a) \<noteq> 0"
  shows "pv_loop_7055 rd mem dest src n 0 (m, reprog, addit, s)
           = Inl (- 1, snd (verify_read SH7055_35 rd dest s))"
proof -
  have "src AND NOT (fst (verify_read SH7055_35 rd dest s)) \<noteq> 0"
    using assms by simp
  then show ?thesis
    by (subst pv_loop_7055.simps) (simp add: pv_word_7055_unfold del: verify_read_fst)
qed

lemma flash_write128_first_word_fault:
  assumes "fwe_ok s" and "\<forall>tr a. src AND NOT (rd tr a) \<noteq> 0"
  shows "map_option fst (flash_write128 rd mem dest src s) = Some (- 1)"
  using assms(1)
  by (simp add: flash_write128_unfold write_loop_7055.simps [of _ _ _ _ "Suc 0"]
      write_attempt_7055_unfold pv_loop_7055_first_word_fault [OF assms(2)])

lemma flash_write128_spurious_fault_example:
  "map_option fst (flash_write128 dev_zero ram_zero 0 0xFFFF9000 hw_unlocked) = Some (- 1)"
  by (rule flash_write128_first_word_fault) (simp_all add: hw_unlocked_facts dev_zero_def)


section \<open>SH7051: every way out of a retry loop goes through sweclear\<close>

lemma sweclear_7051_swe: "regs (sweclear_7051 s) FLMCR1 AND FLMCR_SWE = 0"
  by (simp add: sweclear_7051_def and.assoc)

lemma write_loop_7051_exit:
  "\<exists>s4. snd (write_loop_7051 rd dest src n reprog s) = sweclear_7051 s4"
proof (induction "MAX_WT SH7051 - n" arbitrary: n reprog s rule: less_induct)
  case less
  show ?case
  proof (cases "n < MAX_WT SH7051")
    case False
    then show ?thesis by (subst write_loop_7051_unfold) auto
  next
    case True
    then have "MAX_WT SH7051 - (n + 1) < MAX_WT SH7051 - n" by simp
    from less [OF this] True show ?thesis
      by (subst write_loop_7051_unfold) (auto split: sum.splits)
  qed
qed

lemma eb_loop_7051_exit:
  "\<exists>s1. snd (eb_loop_7051 rd blockno count s) = sweclear_7051 s1"
proof (induction "MAX_ET SH7051 - count" arbitrary: count s rule: less_induct)
  case less
  show ?case
  proof (cases "count < MAX_ET SH7051")
    case False
    then show ?thesis by (subst eb_loop_7051.simps) auto
  next
    case True
    then have "MAX_ET SH7051 - (count + 1) < MAX_ET SH7051 - count" by simp
    from less [OF this] True show ?thesis
      by (subst eb_loop_7051.simps) (auto simp: split_beta)
  qed
qed

lemma flash_write32_returns_swe_clear:
  assumes "fwe_ok s"
  shows "regs (snd (flash_write32 rd mem dest src s)) FLMCR1 AND FLMCR_SWE = 0"
proof -
  from write_loop_7051_exit
  obtain s4 where "snd (write_loop_7051 rd dest (memcpy_from mem src 32) 1 (memcpy_from mem src 32)
      (armed_7051 (snd (fwecheck (select_7051 dest s))))) = sweclear_7051 s4"
    by blast
  with assms show ?thesis by (simp add: flash_write32_unfold sweclear_7051_swe)
qed


section \<open>SH7051: the range loop ends on every aligned length\<close>

lemma len_step32:
  fixes len :: u32
  assumes "len \<noteq> 0" "len AND 0x1F = 0"
  shows "unat (len - 32) < unat len" "(len - 32) AND 0x1F = 0"
proof -
  from assms have m: "unat len mod 32 = 0" and nz: "unat len \<noteq> 0"
    by (simp_all add: and_chunk_mask_iff unat_eq_0)
  then have ge: "32 \<le> unat len" by presburger
  then have "(32::u32) \<le> len" by (simp add: word_le_nat_alt)
  then have u: "unat (len - 32) = unat len - 32" by (simp add: unat_sub)
  from u ge show "unat (len - 32) < unat len" by simp
  from u ge m have "unat (len - 32) mod 32 = 0" by presburger
  then show "(len - 32) AND 0x1F = 0" by (simp add: and_chunk_mask_iff)
qed

lemma wb_loop_7051_returns:
  assumes "len AND 0x1F = 0"
  shows "wb_loop_7051 rd mem dest src len s \<noteq> None"
  using assms
proof (induction "unat len" arbitrary: len dest src s rule: less_induct)
  case less
  show ?case
  proof (cases "len = 0")
    case True
    then show ?thesis by (subst wb_loop_7051.simps) simp
  next
    case False
    with less.prems have "unat (len - 32) < unat len" "(len - 32) AND 0x1F = 0"
      by (simp_all add: len_step32)
    then have "wb_loop_7051 rd mem (dest + 32) (src + 32) (len - 32)
                 (snd (flash_write32 rd mem dest src s)) \<noteq> None"
      by (rule less.hyps)
    with False show ?thesis
      by (subst wb_loop_7051.simps) (simp add: split_beta)
  qed
qed

lemma platf_flash_wb_7051_returns: "platf_flash_wb_7051 rd mem dest src len s \<noteq> None"
  using wb_loop_7051_returns [of len rd mem dest src s]
  by (auto simp: platf_flash_wb_7051_def)

section \<open>The register set and the control register during an operation\<close>

lemma fwecheck_fields [simp]:
  "regs (snd (fwecheck s)) = regs s" "pFLMCR (snd (fwecheck s)) = pFLMCR s"
  "pEBR (snd (fwecheck s)) = pEBR s" "reflash_enabled (snd (fwecheck s)) = reflash_enabled s"
  by (simp_all add: fwecheck_def split_beta)

lemma select_fields [simp]:
  "regs (select_7051 dest s) = regs s" "regs (select_7055 dest s) = regs s"
  "pFLMCR (select_7051 dest s) = (if dest < FLMCR2_BEGIN then FLMCR1 else FLMCR2)"
  "pFLMCR (select_7055 dest s)
     = (if dest < fblocks SH7055_35 ! (FLMCR1_MAXBLOCK + 1) then FLMCR1 else FLMCR2)"
  by (simp_all add: select_7051_def select_7055_def)

lemma armed_fields [simp]:
  "regs (armed_7051 s) = (regs s)(FLMCR1 := regs s FLMCR1 OR FLMCR_SWE)"
  "pFLMCR (armed_7051 s) = pFLMCR s"
  "regs (armed_7055 s) = (regs s)(pFLMCR s := regs s (pFLMCR s) OR FLMCR_SWE)"
  "pFLMCR (armed_7055 s) = pFLMCR s"
  by (simp_all add: armed_7051_def armed_7055_def sweset_7051_def sweset_7055_def)

lemma writepulse_pFLMCR [simp]:
  "pFLMCR (writepulse_7051 dest src tsp s) = pFLMCR s" "pFLMCR (writepulse_7055 tsp s) = pFLMCR s"
  by (simp_all add: writepulse_7051_def writepulse_7055_def Let_def)

lemma pv_entry_regs:
  "regs (pv_entry_7051 dest reprog s)
     = (regs s)(pFLMCR s := (regs s (pFLMCR s) AND NOT (FLMCR_PSU OR FLMCR_P)) OR FLMCR_PV)"
  "regs (pv_entry_7055 dest n reprog s) = (regs s)(pFLMCR s := FLMCR_PV)"
  by (simp_all add: pv_entry_7051_def pv_entry_7055_def Let_def writepulse_7051_regs
      writepulse_7055_regs)

text \<open>
  C4. On the SH7055, block 0 starts at address 0, below \<^verbatim>\<open>fblocks[FLMCR1_MAXBLOCK + 1]\<close>,
  the bound under which \<^verbatim>\<open>flash_write128\<close> takes FLMCR1 for that same address.
  \<^verbatim>\<open>platf_flash_eb\<close> on block 0 runs the whole erase with FLMCR2 and EBR2 selected.
\<close>

theorem eb_7055_block0_uses_second_set:
  "fblocks SH7055_35 ! unat (0 :: u32) < fblocks SH7055_35 ! (FLMCR1_MAXBLOCK + 1) \<and>
   pFLMCR (select_7055 (fblocks SH7055_35 ! unat (0 :: u32)) hw_unlocked) = FLMCR1 \<and>
   pFLMCR (snd (platf_flash_eb_7055 dev_zero 0 hw_unlocked)) = FLMCR2 \<and>
   pEBR (snd (platf_flash_eb_7055 dev_zero 0 hw_unlocked)) = EBR2"
  using platf_flash_eb_7055_select [of hw_unlocked 0 dev_zero]
  by (simp add: hw_unlocked_facts FLMCR1_MAXBLOCK_def)

text \<open>
  C6. On the SH7055, \<^verbatim>\<open>flash_write128\<close> to address 0 works on FLMCR1. When it enters
  its loop the register holds FWE and SWE. The first \<^verbatim>\<open>writepulse\<close> leaves the whole
  register 0, and the program verify of that pass runs with the register holding only
  PV: SWE is gone in the middle of the operation. At the same point of \<^verbatim>\<open>flash_write32\<close>
  on the SH7051 the register holds FWE, SWE and PV.
\<close>

theorem writepulse_7055_drops_swe:
  "regs (armed_7055 (snd (fwecheck (select_7055 0 hw_unlocked)))) FLMCR1 = FLMCR_FWE OR FLMCR_SWE \<and>
   regs (writepulse_7055 TSP30 (latch 0 (memcpy_from ram_ones 0xFFFF9000 128) 128
           (armed_7055 (snd (fwecheck (select_7055 0 hw_unlocked)))))) FLMCR1 = 0 \<and>
   regs (pv_entry_7055 0 1 (memcpy_from ram_ones 0xFFFF9000 128)
           (armed_7055 (snd (fwecheck (select_7055 0 hw_unlocked))))) FLMCR1 = FLMCR_PV \<and>
   regs (pv_entry_7051 0 (memcpy_from ram_ones 0xFFFF9000 32)
           (armed_7051 (snd (fwecheck (select_7051 0 hw_unlocked))))) FLMCR1
     = FLMCR_FWE OR FLMCR_SWE OR FLMCR_PV"
  by (simp add: pv_entry_regs writepulse_7055_regs hw_unlocked_facts FLMCR1_MAXBLOCK_def
      FLMCR2_BEGIN_def FLMCR_bits)


section \<open>Words of a buffer and reads in a trace\<close>

text \<open>
  Two words of a byte buffer at different multiples of 4 do not overlap, and the
  addresses of the words of one chunk are all different. The value last read at an
  address is not changed by what is not a read, nor by a read elsewhere.
\<close>

lemma ld32_st32_other:
  assumes "4 dvd c" "4 dvd c'" "c \<noteq> c'"
  shows "ld32 (st32 buf c v) c' = ld32 buf c'"
proof -
  from assms have "c + 4 \<le> c' \<or> c' + 4 \<le> c" by presburger
  then show ?thesis
    by (auto simp add: ld32_def st32_def nth_list_update_neq)
qed

lemma chunk_addr_inj:
  fixes dest :: u32
  assumes "c < 128" "c' < 128"
  shows "dest + of_nat c = dest + of_nat c' \<longleftrightarrow> c = c'"
proof -
  have "unat (of_nat c :: u32) = c" "unat (of_nat c' :: u32) = c'"
    using assms by (simp_all add: unat_of_nat)
  then show ?thesis by (metis add_left_cancel)
qed

lemma ld32_low_byte: "ucast (ld32 buf c) = buf ! (c + 3)"
  by (rule bit_word_eqI) (auto simp add: ld32_def be32_def bit_simps)

lemma low12_words:
  "(- 4294963201 :: u32) = 0xFFF" "NOT (0xFFF :: u32) = 0xFFFFF000" "NOT (0xFFFFF000 :: u32) = 0xFFF"
  by (simp_all add: word_uint_eq_iff uint_word_ariths)

lemma last_read_verify_read:
  "last_read (trace (snd (verify_read c rd a s))) b
     = (if a = b then Some (fst (verify_read c rd a s)) else last_read (trace s) b)"
  by (simp add: verify_read_def read32_def Let_def waitn_def write32_def emit_def)

lemma verify_read_trace:
  "trace (snd (verify_read c rd a s))
     = Read32 a (fst (verify_read c rd a s)) # Waitn (TSPVR c) # Write32 a (- 1) # trace s"
  by (simp add: verify_read_def read32_def Let_def waitn_def write32_def emit_def)

lemma last_read_writes:
  "last_read (map (\<lambda>k. Write8 (f k) (g k)) ks @ tr) a = last_read tr a"
  by (induction ks) simp_all

lemma last_read_writes_rev [simp]:
  "last_read (rev (map (\<lambda>k. Write8 (f k) (g k)) ks) @ tr) a = last_read tr a"
  by (simp add: rev_map last_read_writes)

lemma last_read_writepulse_7055 [simp]:
  "last_read (trace (writepulse_7055 tsp s)) a = last_read (trace s) a"
  by (simp add: writepulse_7055_def Let_def)

lemma last_read_pv_exit_7055 [simp]:
  "last_read (trace (pv_exit_7055 dest n addit1 s)) a = last_read (trace s) a"
  by (simp add: pv_exit_7055_def Let_def)

lemma verify_read_frame [simp]:
  "regs (snd (verify_read c rd a s)) = regs s" "pFLMCR (snd (verify_read c rd a s)) = pFLMCR s"
  by (simp_all add: verify_read_def)

lemma out_hw_7055_simps [simp]:
  "out_hw_7055 (Inl (rv, s)) = s" "out_hw_7055 (Inr (m, reprog, addit, s)) = s"
  by (simp_all add: out_hw_7055_def)

lemma pv_entry_7055_pFLMCR [simp]: "pFLMCR (pv_entry_7055 dest n reprog s) = pFLMCR s"
  by (simp add: pv_entry_7055_def Let_def)

section \<open>The reprogram buffer at the end of a program-verify pass\<close>

text \<open>
  An invariant of the loop over the words: from \<^verbatim>\<open>cur\<close> on, every word of
  \<^verbatim>\<open>reprog\<close> ends as \<^verbatim>\<open>srcdata | ~verifdata\<close> for the value the device gave at
  that word, which is also the value last read at its address; the words before
  \<^verbatim>\<open>cur\<close> are left as they are. On the SH7055 the word of \<^verbatim>\<open>addit\<close> ends as
  \<^verbatim>\<open>verifdata | reprog\<close>, with \<^verbatim>\<open>reprog\<close> as it was when the pass began.
\<close>

lemma pv_loop_7051_words:
  assumes "pv_loop_7051 rd dest src cur (m, reprog, s) = Inr (m', reprog', s')"
    and "4 dvd cur" and "32 \<le> length reprog"
  shows "length reprog' = length reprog \<and>
         (\<forall>c<32. 4 dvd c \<longrightarrow>
            (if cur \<le> c
             then \<exists>tr. last_read (trace s') (dest + of_nat c) = Some (rd tr (dest + of_nat c)) \<and>
                       ld32 reprog' c = ld32 src c OR NOT (rd tr (dest + of_nat c))
             else last_read (trace s') (dest + of_nat c) = last_read (trace s) (dest + of_nat c) \<and>
                  ld32 reprog' c = ld32 reprog c))"
  using assms
proof (induction "32 - cur" arbitrary: cur m reprog s rule: less_induct)
  case less
  show ?case
  proof (cases "cur < 32")
    case False
    with less.prems(1) have "m' = m" "reprog' = reprog" "s' = s"
      by (subst (asm) pv_loop_7051.simps, simp)+
    with False show ?thesis by simp
  next
    case True
    let ?v = "fst (verify_read SH7051 rd (dest + of_nat cur) s)"
    let ?s3 = "snd (verify_read SH7051 rd (dest + of_nat cur) s)"
    let ?r2 = "st32 reprog cur (ld32 src cur OR NOT ?v)"
    from less.prems(1) True obtain m1 where
      nx: "pv_loop_7051 rd dest src (cur + 4) (m1, ?r2, ?s3) = Inr (m', reprog', s')"
      by (subst (asm) pv_loop_7051.simps)
         (simp add: pv_word_7051_unfold del: verify_read_fst split: if_splits)
    from less.prems(2) have d4: "4 dvd cur + 4" by simp
    from less.prems(3) have l2: "32 \<le> length ?r2" by simp
    from True have "32 - (cur + 4) < 32 - cur" by simp
    from less.hyps [OF this nx d4 l2]
    have len: "length reprog' = length ?r2"
      and ih: "\<And>c. c < 32 \<Longrightarrow> 4 dvd c \<Longrightarrow>
            (if cur + 4 \<le> c
             then \<exists>tr. last_read (trace s') (dest + of_nat c) = Some (rd tr (dest + of_nat c)) \<and>
                       ld32 reprog' c = ld32 src c OR NOT (rd tr (dest + of_nat c))
             else last_read (trace s') (dest + of_nat c) = last_read (trace ?s3) (dest + of_nat c) \<and>
                  ld32 reprog' c = ld32 ?r2 c)"
      by blast+
    have "(if cur \<le> c
             then \<exists>tr. last_read (trace s') (dest + of_nat c) = Some (rd tr (dest + of_nat c)) \<and>
                       ld32 reprog' c = ld32 src c OR NOT (rd tr (dest + of_nat c))
             else last_read (trace s') (dest + of_nat c) = last_read (trace s) (dest + of_nat c) \<and>
                  ld32 reprog' c = ld32 reprog c)" if c: "c < 32" "4 dvd c" for c
    proof -
      from c(2) less.prems(2) have "cur + 4 \<le> c \<or> c = cur \<or> c < cur" by presburger
      then consider "cur + 4 \<le> c" | "c = cur" | "c < cur" by blast
      then show ?thesis
      proof cases
        case 1
        with ih [OF c] show ?thesis by simp
      next
        case 2
        from less.prems(2) True have "cur + 3 < 32" by presburger
        with less.prems(3) have "cur + 3 < length reprog" by simp
        with ih [OF c] 2 show ?thesis
          by (auto simp add: last_read_verify_read ld32_st32)
      next
        case 3
        then have ne: "dest + of_nat cur \<noteq> dest + of_nat c"
          using chunk_addr_inj [of cur c dest] True c(1) by simp
        from 3 have "cur \<noteq> c" by simp
        with ih [OF c] 3 ne less.prems(2) c(2) show ?thesis
          by (simp add: last_read_verify_read ld32_st32_other del: verify_read_fst)
      qed
    qed
    with len show ?thesis by simp
  qed
qed

lemma pv_loop_7051_word_at:
  assumes "pv_loop_7051 rd dest src 0 (m, reprog, s) = Inr (m', reprog', s')"
    and "length reprog = 32" and "c < 32" and "4 dvd c"
  shows "\<exists>tr. last_read (trace s') (dest + of_nat c) = Some (rd tr (dest + of_nat c)) \<and>
              ld32 reprog' c = ld32 src c OR NOT (rd tr (dest + of_nat c))"
proof -
  from pv_loop_7051_words [OF assms(1)] assms(2)
  have "\<forall>c<32. 4 dvd c \<longrightarrow>
          (\<exists>tr. last_read (trace s') (dest + of_nat c) = Some (rd tr (dest + of_nat c)) \<and>
                ld32 reprog' c = ld32 src c OR NOT (rd tr (dest + of_nat c)))"
    by simp
  with assms(3,4) show ?thesis by blast
qed

lemma pv_loop_7055_words:
  assumes "pv_loop_7055 rd mem dest src n cur (m, reprog, addit, s) = Inr (m', reprog', addit', s')"
    and "4 dvd cur" and "128 \<le> length reprog" and "128 \<le> length addit"
  shows "length reprog' = length reprog \<and> length addit' = length addit \<and>
         (\<forall>c<128. 4 dvd c \<longrightarrow>
            (if cur \<le> c
             then \<exists>tr. last_read (trace s') (dest + of_nat c) = Some (rd tr (dest + of_nat c)) \<and>
                       ld32 reprog' c = ram32 mem (src + of_nat c) OR NOT (rd tr (dest + of_nat c)) \<and>
                       ld32 addit' c = (if n \<le> 6 then rd tr (dest + of_nat c) OR ld32 reprog c
                                        else ld32 addit c)
             else last_read (trace s') (dest + of_nat c) = last_read (trace s) (dest + of_nat c) \<and>
                  ld32 reprog' c = ld32 reprog c \<and> ld32 addit' c = ld32 addit c))"
  using assms
proof (induction "128 - cur" arbitrary: cur m reprog addit s rule: less_induct)
  case less
  show ?case
  proof (cases "cur < 128")
    case False
    with less.prems(1) have "m' = m" "reprog' = reprog" "addit' = addit" "s' = s"
      by (subst (asm) pv_loop_7055.simps, simp)+
    with False show ?thesis by simp
  next
    case True
    let ?v = "fst (verify_read SH7055_35 rd (dest + of_nat cur) s)"
    let ?s3 = "snd (verify_read SH7055_35 rd (dest + of_nat cur) s)"
    let ?r2 = "st32 reprog cur (ram32 mem (src + of_nat cur) OR NOT ?v)"
    let ?a2 = "if n \<le> 6 then st32 addit cur (?v OR ld32 reprog cur) else addit"
    from less.prems(1) True obtain m1 where
      nx: "pv_loop_7055 rd mem dest src n (cur + 4) (m1, ?r2, ?a2, ?s3) = Inr (m', reprog', addit', s')"
      by (subst (asm) pv_loop_7055.simps)
         (simp add: pv_word_7055_unfold del: verify_read_fst split: if_splits)
    from less.prems(2) have d4: "4 dvd cur + 4" by simp
    from less.prems(3) have l2: "128 \<le> length ?r2" by simp
    from less.prems(4) have l3: "128 \<le> length ?a2" by simp
    from less.prems(2) True have "cur + 3 < 128" by presburger
    with less.prems(3,4) have c3: "cur + 3 < length reprog" "cur + 3 < length addit" by simp_all
    from True have "128 - (cur + 4) < 128 - cur" by simp
    from less.hyps [OF this nx d4 l2 l3]
    have len: "length reprog' = length ?r2" "length addit' = length ?a2"
      and ih: "\<And>c. c < 128 \<Longrightarrow> 4 dvd c \<Longrightarrow>
            (if cur + 4 \<le> c
             then \<exists>tr. last_read (trace s') (dest + of_nat c) = Some (rd tr (dest + of_nat c)) \<and>
                       ld32 reprog' c = ram32 mem (src + of_nat c) OR NOT (rd tr (dest + of_nat c)) \<and>
                       ld32 addit' c = (if n \<le> 6 then rd tr (dest + of_nat c) OR ld32 ?r2 c
                                        else ld32 ?a2 c)
             else last_read (trace s') (dest + of_nat c) = last_read (trace ?s3) (dest + of_nat c) \<and>
                  ld32 reprog' c = ld32 ?r2 c \<and> ld32 addit' c = ld32 ?a2 c)"
      by blast+
    have "(if cur \<le> c
             then \<exists>tr. last_read (trace s') (dest + of_nat c) = Some (rd tr (dest + of_nat c)) \<and>
                       ld32 reprog' c = ram32 mem (src + of_nat c) OR NOT (rd tr (dest + of_nat c)) \<and>
                       ld32 addit' c = (if n \<le> 6 then rd tr (dest + of_nat c) OR ld32 reprog c
                                        else ld32 addit c)
             else last_read (trace s') (dest + of_nat c) = last_read (trace s) (dest + of_nat c) \<and>
                  ld32 reprog' c = ld32 reprog c \<and> ld32 addit' c = ld32 addit c)"
      if c: "c < 128" "4 dvd c" for c
    proof -
      from c(2) less.prems(2) have "cur + 4 \<le> c \<or> c = cur \<or> c < cur" by presburger
      then consider "cur + 4 \<le> c" | "c = cur" | "c < cur" by blast
      then show ?thesis
      proof cases
        case 1
        then have "cur \<noteq> c" by simp
        then have r: "ld32 ?r2 c = ld32 reprog c" "ld32 ?a2 c = ld32 addit c"
          using less.prems(2) c(2) by (simp_all add: ld32_st32_other)
        from 1 show ?thesis using ih [OF c] unfolding r by (simp del: verify_read_fst)
      next
        case 2
        with ih [OF c] c3 show ?thesis
          by (auto simp add: last_read_verify_read ld32_st32)
      next
        case 3
        then have ne: "dest + of_nat cur \<noteq> dest + of_nat c"
          using chunk_addr_inj [of cur c dest] True c(1) by simp
        from 3 have "cur \<noteq> c" by simp
        then have r: "ld32 ?r2 c = ld32 reprog c" "ld32 ?a2 c = ld32 addit c"
          using less.prems(2) c(2) by (simp_all add: ld32_st32_other)
        from 3 ne show ?thesis using ih [OF c] unfolding r
          by (simp add: last_read_verify_read del: verify_read_fst)
      qed
    qed
    with len show ?thesis by simp
  qed
qed

lemma pv_loop_7055_word_at:
  assumes "pv_loop_7055 rd mem dest src n 0 (m, reprog, addit, s) = Inr (m', reprog', addit', s')"
    and "length reprog = 128" and "length addit = 128" and "c < 128" and "4 dvd c"
  shows "\<exists>tr. last_read (trace s') (dest + of_nat c) = Some (rd tr (dest + of_nat c)) \<and>
              ld32 reprog' c = ram32 mem (src + of_nat c) OR NOT (rd tr (dest + of_nat c)) \<and>
              ld32 addit' c = (if n \<le> 6 then rd tr (dest + of_nat c) OR ld32 reprog c
                               else ld32 addit c)"
proof -
  from pv_loop_7055_words [OF assms(1)] assms(2,3)
  have "\<forall>c<128. 4 dvd c \<longrightarrow>
          (\<exists>tr. last_read (trace s') (dest + of_nat c) = Some (rd tr (dest + of_nat c)) \<and>
              ld32 reprog' c = ram32 mem (src + of_nat c) OR NOT (rd tr (dest + of_nat c)) \<and>
              ld32 addit' c = (if n \<le> 6 then rd tr (dest + of_nat c) OR ld32 reprog c
                               else ld32 addit c))"
    by simp
  with assms(4,5) show ?thesis by blast
qed

lemma write_attempt_7055_words:
  assumes "write_attempt_7055 rd mem dest src n (reprog, addit, s) = Inr (m1, reprog1, addit1, s7)"
    and "128 \<le> length reprog" and "128 \<le> length addit" and "c < 128" and "4 dvd c"
  shows "\<exists>tr. last_read (trace s7) (dest + of_nat c) = Some (rd tr (dest + of_nat c)) \<and>
              ld32 reprog1 c = ram32 mem (src + of_nat c) OR NOT (rd tr (dest + of_nat c)) \<and>
              ld32 addit1 c = (if n \<le> 6 then rd tr (dest + of_nat c) OR ld32 reprog c
                               else ld32 addit c)"
proof -
  let ?e = "pv_entry_7055 dest n reprog s"
  from assms(1) obtain s4 where
    p: "pv_loop_7055 rd mem dest src n 0 (False, reprog, addit, ?e) = Inr (m1, reprog1, addit1, s4)"
    and s7: "s7 = pv_exit_7055 dest n addit1 s4"
    by (auto simp add: write_attempt_7055_unfold split: sum.splits)
  from pv_loop_7055_words [OF p _ assms(2,3)] assms(4,5) show ?thesis
    by (simp add: s7)
qed

section \<open>What the next attempt transfers to the flash latch\<close>

lemma suffix_writepulse_7055: "suffix (trace s) (trace (writepulse_7055 tsp s))"
  by (simp add: writepulse_7055_def Let_def)

lemma suffix_pv_entry_7055_latch:
  "suffix (trace (latch dest reprog 128 s)) (trace (pv_entry_7055 dest n reprog s))"
  by (simp add: pv_entry_7055_def Let_def writepulse_7055_def del: latch_fields)

lemma suffix_pv_exit_7055: "suffix (trace s) (trace (pv_exit_7055 dest n addit1 s))"
  by (simp add: pv_exit_7055_def Let_def writepulse_7055_def suffix_appendI)

lemma suffix_verify_read: "suffix (trace s) (trace (snd (verify_read c rd a s)))"
  by (simp add: verify_read_trace del: verify_read_fst)

lemma suffix_pv_loop_7055:
  "suffix (trace s) (trace (out_hw_7055 (pv_loop_7055 rd mem dest src n cur (m, reprog, addit, s))))"
proof (induction "128 - cur" arbitrary: cur m reprog addit s rule: less_induct)
  case less
  show ?case
  proof (cases "cur < 128")
    case False
    then show ?thesis by (subst pv_loop_7055.simps) simp
  next
    case True
    from True have d: "128 - (cur + 4) < 128 - cur" by simp
    note v = suffix_verify_read [of s SH7055_35 rd "dest + of_nat cur"]
    show ?thesis
      using True v suffix_order.trans [OF v less [OF d]]
      by (subst pv_loop_7055.simps) (simp add: pv_word_7055_unfold del: verify_read_fst)
  qed
qed

lemma suffix_write_attempt_7055:
  "suffix (rev (map (\<lambda>k. Write8 (dest + of_nat k) (reprog ! k)) [0..<128]) @ trace s)
     (trace (out_hw_7055 (write_attempt_7055 rd mem dest src n (reprog, addit, s))))"
proof -
  let ?e = "pv_entry_7055 dest n reprog s"
  let ?p = "pv_loop_7055 rd mem dest src n 0 (False, reprog, addit, ?e)"
  have a: "suffix (trace (latch dest reprog 128 s)) (trace (out_hw_7055 ?p))"
    by (rule suffix_order.trans [OF suffix_pv_entry_7055_latch suffix_pv_loop_7055])
  have "suffix (trace (latch dest reprog 128 s))
     (trace (out_hw_7055 (write_attempt_7055 rd mem dest src n (reprog, addit, s))))"
  proof (cases ?p)
    case (Inl bad)
    with a show ?thesis by (cases bad) (simp add: write_attempt_7055_unfold)
  next
    case (Inr st4)
    obtain m reprog1 addit1 s4 where "st4 = (m, reprog1, addit1, s4)" by (cases st4)
    with a Inr show ?thesis
      using suffix_order.trans [OF _ suffix_pv_exit_7055 [of s4 dest n addit1]]
      by (simp add: write_attempt_7055_unfold del: latch_fields)
  qed
  then show ?thesis by simp
qed

lemma suffix_write_loop_7051:
  assumes "n < MAX_WT SH7051"
  shows "suffix (rev (map (\<lambda>k. Write8 (dest + of_nat k) (reprog ! k)) [0..<32]) @ trace s)
     (trace (snd (write_loop_7051 rd dest src n reprog s)))"
proof -
  have "later (latch dest reprog 32 s) (snd (write_loop_7051 rd dest src n reprog s))"
    by (rule later_then [OF later_write_loop_7051(2) [OF assms] later_pv_entry_7051_latch])
  then show ?thesis by (simp add: later_def)
qed

lemma write_loop_7051_next:
  assumes "n < MAX_WT SH7051"
    and "pv_loop_7051 rd dest src 0 (False, reprog, pv_entry_7051 dest reprog s) = Inr (True, reprog1, s4)"
  shows "write_loop_7051 rd dest src n reprog s
           = write_loop_7051 rd dest src (n + 1) reprog1 (pv_exit_7051 s4)"
  using assms by (subst write_loop_7051_unfold) simp

lemma suffix_latch_write_loop_7051:
  assumes "n < MAX_WT SH7051"
  shows "suffix (trace (latch dest reprog 32 s)) (trace (snd (write_loop_7051 rd dest src n reprog s)))"
  using suffix_write_loop_7051 [OF assms] by simp

lemma suffix_latch_write_attempt_7055:
  "suffix (trace (latch dest reprog 128 s))
     (trace (out_hw_7055 (write_attempt_7055 rd mem dest src n (reprog, addit, s))))"
  using suffix_write_attempt_7055 by simp

lemma pv_loop_7055_frame:
  "regs (out_hw_7055 (pv_loop_7055 rd mem dest src n cur (m, reprog, addit, s))) = regs s \<and>
   pFLMCR (out_hw_7055 (pv_loop_7055 rd mem dest src n cur (m, reprog, addit, s))) = pFLMCR s"
proof (induction "128 - cur" arbitrary: cur m reprog addit s rule: less_induct)
  case less
  show ?case
  proof (cases "cur < 128")
    case False
    then show ?thesis by (subst pv_loop_7055.simps, simp)+
  next
    case True
    from True have d: "128 - (cur + 4) < 128 - cur" by simp
    show ?thesis
      using True less [OF d]
      by (subst pv_loop_7055.simps, simp add: pv_word_7055_unfold del: verify_read_fst)+
  qed
qed

lemma pv_exit_7055_latched:
  assumes "n \<le> 6" and "k < 128"
  shows "trace (pv_exit_7055 dest n addit1 s) ! (144 - k) = Write8 (dest + of_nat k) (addit1 ! k)"
proof -
  have "trace (pv_exit_7055 dest n addit1 s) ! (17 + (127 - k))
          = Write8 (dest + of_nat k) (addit1 ! k)"
    using assms
    by (simp add: pv_exit_7055_def Let_def writepulse_7055_def nth_append rev_nth)
  with assms(2) show ?thesis by simp
qed

lemma pv_exit_7055_pulse:
  assumes "n \<le> 6"
  shows "trace (pv_exit_7055 dest n addit1 s) ! 9
           = RegWrite (pFLMCR s) (((regs s (pFLMCR s) AND NOT FLMCR_PV) OR FLMCR_PSU) OR FLMCR_P)"
    and "trace (pv_exit_7055 dest n addit1 s) ! 8 = Waitn TSP10"
    and "trace (pv_exit_7055 dest n addit1 s) ! 145 = Waitn (TCPV SH7055_35)"
  using assms by (simp_all add: pv_exit_7055_def Let_def writepulse_7055_def nth_append)

section \<open>A chunk of 0 bytes on a device with the low 12 bits of each word programmed\<close>

lemma dev_low12_no_fault: "\<forall>tr a. (0xFFFF9000 :: u32) AND NOT (dev_low12 tr a) = 0"
  by (simp add: dev_low12_def)

lemma pv_loop_7051_low12:
  assumes "4 dvd cur"
  shows "\<exists>r' s'. pv_loop_7051 dev_low12 dest (replicate 32 0) cur (m, reprog, s)
               = Inr (m \<or> cur < 32, r', s')"
  using assms
proof (induction "32 - cur" arbitrary: cur m reprog s rule: less_induct)
  case less
  show ?case
  proof (cases "cur < 32")
    case False
    then show ?thesis by (subst pv_loop_7051.simps) simp
  next
    case True
    with less.prems have c3: "cur + 3 < 32" by presburger
    from less.prems have d: "4 dvd cur + 4" by simp
    from True have "32 - (cur + 4) < 32 - cur" by simp
    from less.hyps [OF this d, of True "st32 reprog cur (0 OR NOT 0xFFFFF000)"
        "snd (verify_read SH7051 dev_low12 (dest + of_nat cur) s)"] True c3
    show ?thesis
      by (subst pv_loop_7051.simps)
         (simp add: pv_word_7051_unfold dev_low12_def ld32_replicate)
  qed
qed





end
